theory Spec2Isabelle
  imports Main
begin

section \<open>Data model of the role and verse-rotation layer\<close>

text \<open>
  The SQL migrations declare the tables below. A \<open>uuid\<close> is an opaque key, a
  \<open>timestamptz\<close> a point on a discrete time line. A column declared \<open>NOT NULL\<close> has a
  plain type, a nullable column an \<open>option\<close> type (\<open>None\<close> is SQL's \<open>NULL\<close>). Tables are
  lists of rows in storage order.
\<close>

type_synonym uuid = nat
type_synonym timestamptz = int

text \<open>A \<open>text[]\<close> value: the elements of an array may be \<open>NULL\<close>.\<close>

type_synonym text_array = "string option list"

datatype json = JNull | JBool bool | JString string

type_synonym jsonb = "(string \<times> json) list"

text \<open>
  Modelled from the spec: the identity table \<open>auth.users\<close> belongs to the hosting service
  and is not declared by any migration; its rows carry the columns the migrations read
  (\<open>id\<close>, \<open>email\<close>, \<open>raw_user_meta_data\<close>, \<open>created_at\<close>, \<open>last_sign_in_at\<close>,
  \<open>confirmed_at\<close>).
\<close>

record auth_user =
  au_id :: uuid
  au_email :: "string option"
  raw_user_meta_data :: "jsonb option"
  au_created_at :: "timestamptz option"
  last_sign_in_at :: "timestamptz option"
  confirmed_at :: "timestamptz option"

record role =
  r_id :: uuid
  r_name :: string
  r_description :: "string option"
  r_level :: int

record user_role =
  ur_id :: uuid
  ur_user_id :: uuid
  ur_role_id :: uuid
  assigned_by :: "uuid option"
  assigned_at :: "timestamptz option"
  ur_expires_at :: "timestamptz option"
  is_active :: "bool option"

record role_transition =
  rt_id :: uuid
  rt_user_id :: uuid
  old_role_id :: "uuid option"
  new_role_id :: uuid
  changed_by :: uuid
  reason :: "string option"
  rt_created_at :: "timestamptz option"

record user_invitation =
  ui_id :: uuid
  ui_email :: string
  invited_by :: "uuid option"
  ui_roles :: text_array
  ui_status :: string
  invitation_token :: string
  ui_expires_at :: timestamptz
  ui_created_at :: "timestamptz option"

record bible_verse =
  bv_id :: uuid
  serial_number :: string
  verse_text :: string
  bv_created_at :: "timestamptz option"

record verse_history_row =
  vh_id :: uuid
  vh_user_id :: uuid
  vh_verse_id :: uuid
  shown_at :: "timestamptz option"

text \<open>A row of the materialized view \<open>auth_users_view\<close>.\<close>

record directory_entry =
  de_id :: uuid
  de_email :: "string option"
  user_metadata :: "jsonb option"
  de_created_at :: "timestamptz option"
  de_last_sign_in_at :: "timestamptz option"
  de_confirmed_at :: "timestamptz option"
  de_is_active :: bool
  de_roles :: text_array
  has_pending_invitation :: bool

text \<open>
  The database, together with the session's \<open>auth.uid()\<close> (\<open>None\<close> for a caller with no
  authenticated identity). \<open>auth_users_view\<close> holds the rows the materialized view stored
  at its last rebuild.
\<close>

record db =
  auth_uid :: "uuid option"
  auth_users :: "auth_user list"
  roles :: "role list"
  user_roles :: "user_role list"
  role_transitions :: "role_transition list"
  user_invitations :: "user_invitation list"
  bible_verses :: "bible_verse list"
  verse_history :: "verse_history_row list"
  auth_users_view :: "directory_entry list"

text \<open>
  Every \<open>RAISE EXCEPTION\<close> and every constraint the engine enforces is a value. A function
  that returns \<open>Inl\<close> has left the database as it was: the failed transaction is rolled
  back. A constraint violation names the table first, then the column or the constraint.
  The functions are \<open>SECURITY DEFINER\<close>; row-level security does not restrict the
  statements of their bodies.
\<close>

datatype error =
  RaiseException string
  | UniqueViolation string
  | NotNullViolation string string
  | ForeignKeyViolation string string
  | CheckViolation string string
  | AmbiguousColumn string

text \<open>
  SQL's \<open>a = b\<close> in a \<open>WHERE\<close> or \<open>ON\<close> clause: a comparison with \<open>NULL\<close> is unknown,
  and a row is kept only when the condition is true.
\<close>

definition sql_eq :: "'a option \<Rightarrow> 'a option \<Rightarrow> bool" where
  "sql_eq a b = (case (a, b) of (Some x, Some y) \<Rightarrow> x = y | _ \<Rightarrow> False)"

text \<open>\<open>gen_random_uuid()\<close>: a key no row of the table has yet.\<close>

definition fresh_id :: "uuid list \<Rightarrow> uuid" where
  "fresh_id ids = Suc (fold max ids 0)"

section \<open>Access checks\<close>

text \<open>
  \<open>has_admin_access()\<close> of \<open>20250323154812_wandering_bar.sql\<close>:
  \<^verbatim>\<open>
  RETURN EXISTS (
    SELECT 1 FROM user_roles ur JOIN roles r ON r.id = ur.role_id
    WHERE ur.user_id = auth.uid() AND r.name = 'admin' AND ur.is_active = true);
  \<close>
\<close>

definition has_admin_access :: "db \<Rightarrow> bool" where
  "has_admin_access s =
     list_ex (\<lambda>ur. list_ex (\<lambda>r. r_id r = ur_role_id ur
                  \<and> sql_eq (Some (ur_user_id ur)) (auth_uid s)
                  \<and> r_name r = ''admin''
                  \<and> is_active ur = Some True) (roles s)) (user_roles s)"

text \<open>
  \<open>has_role(user_id, role_name)\<close> of the role-management migration, which also asks
  \<^verbatim>\<open>AND (ur.expires_at IS NULL OR ur.expires_at > now())\<close>.
\<close>

definition has_role :: "db \<Rightarrow> timestamptz \<Rightarrow> uuid option \<Rightarrow> string option \<Rightarrow> bool" where
  "has_role s now user_id role_name =
     list_ex (\<lambda>ur. list_ex (\<lambda>r. r_id r = ur_role_id ur
                  \<and> sql_eq (Some (ur_user_id ur)) user_id
                  \<and> sql_eq (Some (r_name r)) role_name
                  \<and> is_active ur = Some True
                  \<and> (case ur_expires_at ur of None \<Rightarrow> True | Some e \<Rightarrow> e > now)) (roles s)) (user_roles s)"

text \<open>
  \<open>get_users()\<close>:
  \<^verbatim>\<open>
  IF has_admin_access() THEN RETURN QUERY SELECT * FROM auth_users_view;
  ELSE RAISE EXCEPTION 'Access denied'; END IF;
  \<close>
\<close>

definition get_users :: "db \<Rightarrow> error + directory_entry list" where
  "get_users s =
     (if has_admin_access s then Inr (auth_users_view s)
      else Inl (RaiseException ''Access denied''))"

section \<open>Verse rotation\<close>

text \<open>
  \<^verbatim>\<open>ORDER BY RANDOM() LIMIT 1\<close> over the candidate rows: the engine's random source is the
  number \<open>r\<close>; every candidate is the choice of some \<open>r\<close>, and no row is chosen when
  there is no candidate (the \<open>SELECT ... INTO\<close> then leaves its variables \<open>NULL\<close>).
\<close>

definition pick :: "nat \<Rightarrow> 'a list \<Rightarrow> 'a option" where
  "pick r xs = (if xs = [] then None else Some (xs ! (r mod length xs)))"

text \<open>
  The first query of \<open>get_daily_verse()\<close>: the verses with no history row of the user.
  \<^verbatim>\<open>
  FROM bible_verses verses WHERE NOT EXISTS (
    SELECT 1 FROM verse_history history
    WHERE history.verse_id = verses.id AND history.user_id = current_user_id)
  \<close>
\<close>

definition unshown :: "db \<Rightarrow> uuid \<Rightarrow> bible_verse list" where
  "unshown s u =
     filter (\<lambda>v. \<not> list_ex (\<lambda>h. vh_verse_id h = bv_id v \<and> vh_user_id h = u) (verse_history s))
       (bible_verses s)"

text \<open>
  \<^verbatim>\<open>INSERT INTO verse_history (user_id, verse_id) VALUES (u, v)\<close> under the table's
  constraints: \<open>UNIQUE(user_id, verse_id)\<close> is checked when the row is written, the two
  foreign keys at the end of the statement. \<open>id\<close> and \<open>shown_at\<close> take their defaults.
\<close>

definition insert_verse_history :: "db \<Rightarrow> uuid \<Rightarrow> uuid \<Rightarrow> timestamptz \<Rightarrow> error + db" where
  "insert_verse_history s u v now =
     (if list_ex (\<lambda>h. vh_user_id h = u \<and> vh_verse_id h = v) (verse_history s)
        then Inl (UniqueViolation ''verse_history_user_id_verse_id_key'')
      else if \<not> list_ex (\<lambda>a. au_id a = u) (auth_users s)
        then Inl (ForeignKeyViolation ''verse_history'' ''verse_history_user_id_fkey'')
      else if \<not> list_ex (\<lambda>b. bv_id b = v) (bible_verses s)
        then Inl (ForeignKeyViolation ''verse_history'' ''verse_history_verse_id_fkey'')
      else Inr (s\<lparr>verse_history := verse_history s @
             [\<lparr>vh_id = fresh_id (map vh_id (verse_history s)), vh_user_id = u,
               vh_verse_id = v, shown_at = Some now\<rparr>]\<rparr>))"

text \<open>
  \<^verbatim>\<open>DELETE FROM verse_history WHERE verse_history.user_id = current_user_id\<close>
\<close>

definition delete_history :: "db \<Rightarrow> uuid \<Rightarrow> db" where
  "delete_history s u = s\<lparr>verse_history := filter (\<lambda>h. vh_user_id h \<noteq> u) (verse_history s)\<rparr>"

text \<open>
  What one call of \<open>get_daily_verse()\<close> leaves behind besides the database: the row it
  selected (\<open>selected_verse_id\<close>, \<open>selected_verse\<close>) and whether the branch that resets
  the history was taken.
\<close>

record verse_call =
  vc_db :: db
  selected_verse_id :: uuid
  selected_verse :: string
  history_reset :: bool

text \<open>
  The body of \<open>get_daily_verse()\<close> (the latest migration that defines it). \<open>r1\<close> and \<open>r2\<close>
  are the random sources of its two queries. \<open>verse_text\<close> is \<open>NOT NULL\<close>, so
  \<^verbatim>\<open>selected_verse_id IS NULL OR selected_verse IS NULL\<close> holds exactly when no row was
  selected. The handler \<open>WHEN OTHERS\<close> logs and re-raises, so an error leaves the function
  as it arose.
\<close>

definition daily_verse_body :: "db \<Rightarrow> nat \<Rightarrow> nat \<Rightarrow> timestamptz \<Rightarrow> error + verse_call" where
  "daily_verse_body s r1 r2 now =
     (case auth_uid s of
        None \<Rightarrow> Inl (RaiseException ''User not authenticated'')
      | Some current_user_id \<Rightarrow>
          (let first_try = pick r1 (unshown s current_user_id);
               reset = (first_try = None);
               s1 = (if reset then delete_history s current_user_id else s);
               chosen = (if reset then pick r2 (bible_verses s1) else first_try)
           in case chosen of
                None \<Rightarrow> Inl (RaiseException ''No verses available'')
              | Some v \<Rightarrow>
                  (case insert_verse_history s1 current_user_id (bv_id v) now of
                     Inl e \<Rightarrow> Inl e
                   | Inr s2 \<Rightarrow> Inr \<lparr>vc_db = s2, selected_verse_id = bv_id v,
                                    selected_verse = verse_text v, history_reset = reset\<rparr>)))"

text \<open>\<open>get_daily_verse()\<close> returns the one-row table \<open>SELECT selected_verse::text\<close>.\<close>

definition get_daily_verse :: "db \<Rightarrow> nat \<Rightarrow> nat \<Rightarrow> timestamptz \<Rightarrow> error + (db \<times> string list)" where
  "get_daily_verse s r1 r2 now =
     (case daily_verse_body s r1 r2 now of
        Inl e \<Rightarrow> Inl e
      | Inr c \<Rightarrow> Inr (vc_db c, [selected_verse c]))"

text \<open>
  A session: one call after the other, each with its own random sources and time. The
  first error ends it.
\<close>

fun daily_verse_calls :: "db \<Rightarrow> (nat \<times> nat \<times> timestamptz) list \<Rightarrow> error + (db \<times> verse_call list)" where
  "daily_verse_calls s [] = Inr (s, [])"
| "daily_verse_calls s ((r1, r2, now) # cs) =
     (case daily_verse_body s r1 r2 now of
        Inl e \<Rightarrow> Inl e
      | Inr c \<Rightarrow>
          (case daily_verse_calls (vc_db c) cs of
             Inl e \<Rightarrow> Inl e
           | Inr (s', tr) \<Rightarrow> Inr (s', c # tr)))"

text \<open>The verse ids of the user's history rows, in storage order.\<close>

definition shown_to :: "db \<Rightarrow> uuid \<Rightarrow> uuid list" where
  "shown_to s u = map vh_verse_id (filter (\<lambda>h. vh_user_id h = u) (verse_history s))"

section \<open>Invitations\<close>

text \<open>\<^verbatim>\<open>CONSTRAINT valid_status CHECK (status IN ('pending', 'accepted', 'expired'))\<close>\<close>

definition valid_status :: "string \<Rightarrow> bool" where
  "valid_status st = (st = ''pending'' \<or> st = ''accepted'' \<or> st = ''expired'')"

text \<open>\<^verbatim>\<open>interval '7 days'\<close>, in seconds.\<close>

definition seven_days :: int where
  "seven_days = 7 * 86400"

text \<open>
  \<^verbatim>\<open>INSERT INTO user_invitations (email, invited_by, roles, invitation_token, status)\<close>
  with \<open>RETURNING *\<close>: \<open>email\<close> is \<open>NOT NULL\<close>, \<open>status\<close> is checked, \<open>invited_by\<close>
  references \<open>auth.users(id)\<close> when it is not \<open>NULL\<close>; \<open>id\<close>, \<open>expires_at\<close> and \<open>created_at\<close>
  take their defaults.
\<close>

definition insert_invitation ::
  "db \<Rightarrow> string option \<Rightarrow> uuid option \<Rightarrow> text_array \<Rightarrow> string \<Rightarrow> string \<Rightarrow> timestamptz
    \<Rightarrow> error + (db \<times> user_invitation)" where
  "insert_invitation s email inviter rs token status now =
     (case email of
        None \<Rightarrow> Inl (NotNullViolation ''user_invitations'' ''email'')
      | Some e \<Rightarrow>
          if \<not> valid_status status then Inl (CheckViolation ''user_invitations'' ''valid_status'')
          else if (case inviter of None \<Rightarrow> False
                   | Some i \<Rightarrow> \<not> list_ex (\<lambda>a. au_id a = i) (auth_users s))
            then Inl (ForeignKeyViolation ''user_invitations'' ''user_invitations_invited_by_fkey'')
          else (let row = \<lparr>ui_id = fresh_id (map ui_id (user_invitations s)), ui_email = e,
                            invited_by = inviter, ui_roles = rs, ui_status = status,
                            invitation_token = token, ui_expires_at = now + seven_days,
                            ui_created_at = Some now\<rparr>
                in Inr (s\<lparr>user_invitations := user_invitations s @ [row]\<rparr>, row)))"

text \<open>
  \<open>invite_users(emails, roles)\<close>: the loop \<^verbatim>\<open>FOREACH v_email IN ARRAY emails\<close> inserts and
  \<^verbatim>\<open>RETURN NEXT\<close>s one invitation per email. \<open>rnd k\<close> is the token
  \<^verbatim>\<open>encode(gen_random_bytes(32), 'hex')\<close> of the \<open>k\<close>-th round. The body has no exception
  handler: the first failing insert ends the function with its error.
\<close>

fun invite_loop ::
  "db \<Rightarrow> text_array \<Rightarrow> (nat \<Rightarrow> string) \<Rightarrow> timestamptz \<Rightarrow> nat \<Rightarrow> string option list
    \<Rightarrow> error + (db \<times> user_invitation list)" where
  "invite_loop s rs rnd now k [] = Inr (s, [])"
| "invite_loop s rs rnd now k (v_email # es) =
     (case insert_invitation s v_email (auth_uid s) rs (rnd k) ''pending'' now of
        Inl e \<Rightarrow> Inl e
      | Inr (s1, v_invitation) \<Rightarrow>
          (case invite_loop s1 rs rnd now (Suc k) es of
             Inl e \<Rightarrow> Inl e
           | Inr (s2, rows) \<Rightarrow> Inr (s2, v_invitation # rows)))"

definition invite_users ::
  "db \<Rightarrow> string option list \<Rightarrow> text_array \<Rightarrow> (nat \<Rightarrow> string) \<Rightarrow> timestamptz
    \<Rightarrow> error + (db \<times> user_invitation list)" where
  "invite_users s emails rs rnd now =
     (if \<not> has_admin_access s then Inl (RaiseException ''Access denied'')
      else invite_loop s rs rnd now 0 emails)"

text \<open>A name between the quotation marks the engine puts around it.\<close>

definition quoted :: "string \<Rightarrow> string" where
  "quoted n = CHR 0x22 # n @ [CHR 0x22]"

text \<open>
  \<open>SQLERRM\<close>, the message of the error being handled: the text of a \<open>RAISE EXCEPTION\<close>,
  or the engine's message for the violation.
\<close>

definition sqlerrm :: "error \<Rightarrow> string" where
  "sqlerrm e =
     (case e of
        RaiseException m \<Rightarrow> m
      | UniqueViolation c \<Rightarrow> ''duplicate key value violates unique constraint '' @ quoted c
      | NotNullViolation tab c \<Rightarrow>
          ''null value in column '' @ quoted c @ '' of relation '' @ quoted tab
            @ '' violates not-null constraint''
      | ForeignKeyViolation tab c \<Rightarrow>
          ''insert or update on table '' @ quoted tab @ '' violates foreign key constraint ''
            @ quoted c
      | CheckViolation tab c \<Rightarrow>
          ''new row for relation '' @ quoted tab @ '' violates check constraint '' @ quoted c
      | AmbiguousColumn c \<Rightarrow> ''column reference '' @ quoted c @ '' is ambiguous'')"

text \<open>A row of the table \<open>bulk_create_users\<close> returns: \<open>(email, status, message)\<close>.\<close>

record bulk_result =
  br_email :: "string option"
  br_status :: string
  br_message :: string

text \<open>
  An unqualified name in a statement of a PL/pgSQL function that is both a variable of
  the function and a column of a table of the statement: with the default
  \<open>variable_conflict = error\<close> (no function here sets another) the statement fails with
  \<open>column reference ... is ambiguous\<close>.
\<close>

definition column_reference :: "string list \<Rightarrow> string list \<Rightarrow> string \<Rightarrow> error + unit" where
  "column_reference variables columns name =
     (if name \<in> set variables \<and> name \<in> set columns then Inl (AmbiguousColumn name)
      else Inr ())"

text \<open>
  The variables of \<open>bulk_create_users\<close>: its two parameters, the three columns of
  \<^verbatim>\<open>RETURNS TABLE (email text, status text, message text)\<close>, which are output parameters,
  and the three variables it declares.
\<close>

definition bulk_create_users_variables :: "string list" where
  "bulk_create_users_variables =
     [''user_emails'', ''user_roles'', ''email'', ''status'', ''message'',
      ''v_email'', ''v_result'', ''v_invitation'']"

text \<open>The columns of \<open>auth.users\<close> that the migrations name.\<close>

definition auth_users_columns :: "string list" where
  "auth_users_columns =
     [''id'', ''email'', ''raw_user_meta_data'', ''created_at'', ''last_sign_in_at'',
      ''confirmed_at'']"

text \<open>
  One round of the loop of \<open>bulk_create_users\<close>, the block
  \<^verbatim>\<open>BEGIN ... EXCEPTION WHEN others THEN ... END\<close>. Its first statement is
  \<^verbatim>\<open>IF EXISTS (SELECT 1 FROM auth.users WHERE email = v_email)\<close>, where \<open>email\<close> is
  written without a qualifier. When the test can be evaluated, an email that an identity
  already has is reported and skipped (\<open>CONTINUE\<close>), and otherwise the invitation is
  inserted. An error raised in the block is caught by the handler: the block's writes are
  undone and the row reports \<open>SQLERRM\<close>.
\<close>

definition bulk_item ::
  "db \<Rightarrow> text_array \<Rightarrow> string \<Rightarrow> timestamptz \<Rightarrow> string option \<Rightarrow> db \<times> bulk_result" where
  "bulk_item s rs token now v_email =
     (case column_reference bulk_create_users_variables auth_users_columns ''email'' of
        Inl e \<Rightarrow> (s, \<lparr>br_email = v_email, br_status = ''error'', br_message = sqlerrm e\<rparr>)
      | Inr _ \<Rightarrow>
          (if list_ex (\<lambda>a. sql_eq (au_email a) v_email) (auth_users s)
             then (s, \<lparr>br_email = v_email, br_status = ''error'',
                       br_message = ''User already exists''\<rparr>)
           else (case insert_invitation s v_email (auth_uid s) rs token ''pending'' now of
                   Inl e \<Rightarrow> (s, \<lparr>br_email = v_email, br_status = ''error'', br_message = sqlerrm e\<rparr>)
                 | Inr (s1, v_invitation) \<Rightarrow>
                     (s1, \<lparr>br_email = v_email, br_status = ''success'',
                           br_message = ''Invitation sent''\<rparr>))))"

fun bulk_loop ::
  "db \<Rightarrow> text_array \<Rightarrow> (nat \<Rightarrow> string) \<Rightarrow> timestamptz \<Rightarrow> nat \<Rightarrow> string option list
    \<Rightarrow> db \<times> bulk_result list" where
  "bulk_loop s rs rnd now k [] = (s, [])"
| "bulk_loop s rs rnd now k (v_email # es) =
     (case bulk_item s rs (rnd k) now v_email of
        (s1, row) \<Rightarrow>
          (case bulk_loop s1 rs rnd now (Suc k) es of
             (s2, rows) \<Rightarrow> (s2, row # rows)))"

definition bulk_create_users ::
  "db \<Rightarrow> string option list \<Rightarrow> text_array \<Rightarrow> (nat \<Rightarrow> string) \<Rightarrow> timestamptz
    \<Rightarrow> error + (db \<times> bulk_result list)" where
  "bulk_create_users s user_emails rs rnd now =
     (if \<not> has_admin_access s then Inl (RaiseException ''Access denied'')
      else Inr (bulk_loop s rs rnd now 0 user_emails))"

section \<open>Role assignments\<close>

text \<open>
  \<^verbatim>\<open>INSERT INTO user_roles (user_id, role_id, is_active)\<close> of one row, under
  \<open>UNIQUE(user_id, role_id)\<close> and the two foreign keys; \<open>assigned_at\<close> is \<open>now()\<close>.
\<close>

definition insert_user_role :: "db \<Rightarrow> uuid \<Rightarrow> uuid \<Rightarrow> bool option \<Rightarrow> timestamptz \<Rightarrow> error + db" where
  "insert_user_role s uid rid act now =
     (if list_ex (\<lambda>ur. ur_user_id ur = uid \<and> ur_role_id ur = rid) (user_roles s)
        then Inl (UniqueViolation ''user_roles_user_id_role_id_key'')
      else if \<not> list_ex (\<lambda>a. au_id a = uid) (auth_users s)
        then Inl (ForeignKeyViolation ''user_roles'' ''user_roles_user_id_fkey'')
      else if \<not> list_ex (\<lambda>r. r_id r = rid) (roles s)
        then Inl (ForeignKeyViolation ''user_roles'' ''user_roles_role_id_fkey'')
      else Inr (s\<lparr>user_roles := user_roles s @
             [\<lparr>ur_id = fresh_id (map ur_id (user_roles s)), ur_user_id = uid, ur_role_id = rid,
               assigned_by = None, assigned_at = Some now, ur_expires_at = None,
               is_active = act\<rparr>]\<rparr>))"

text \<open>An \<open>INSERT ... SELECT\<close> of several rows: the first row that fails fails the statement.\<close>

fun insert_user_roles :: "db \<Rightarrow> uuid \<Rightarrow> role list \<Rightarrow> timestamptz \<Rightarrow> error + db" where
  "insert_user_roles s uid [] now = Inr s"
| "insert_user_roles s uid (r # rs) now =
     (case insert_user_role s uid (r_id r) (Some True) now of
        Inl e \<Rightarrow> Inl e
      | Inr s1 \<Rightarrow> insert_user_roles s1 uid rs now)"

text \<open>
  \<^verbatim>\<open>INSERT INTO role_transitions (user_id, new_role_id, changed_by, reason)\<close>:
  \<open>old_role_id\<close> is not among the columns and stays \<open>NULL\<close>.
\<close>

definition insert_role_transition ::
  "db \<Rightarrow> uuid \<Rightarrow> uuid \<Rightarrow> uuid \<Rightarrow> string option \<Rightarrow> timestamptz \<Rightarrow> error + db" where
  "insert_role_transition s uid rid actor why now =
     (if \<not> list_ex (\<lambda>a. au_id a = uid) (auth_users s)
        then Inl (ForeignKeyViolation ''role_transitions'' ''role_transitions_user_id_fkey'')
      else if \<not> list_ex (\<lambda>r. r_id r = rid) (roles s)
        then Inl (ForeignKeyViolation ''role_transitions'' ''role_transitions_new_role_id_fkey'')
      else if \<not> list_ex (\<lambda>a. au_id a = actor) (auth_users s)
        then Inl (ForeignKeyViolation ''role_transitions'' ''role_transitions_changed_by_fkey'')
      else Inr (s\<lparr>role_transitions := role_transitions s @
             [\<lparr>rt_id = fresh_id (map rt_id (role_transitions s)), rt_user_id = uid,
               old_role_id = None, new_role_id = rid, changed_by = actor, reason = why,
               rt_created_at = Some now\<rparr>]\<rparr>))"

text \<open>
  The block that assigns the admin role (\<^verbatim>\<open>DO $$ ... END $$\<close>, one transaction):
  it looks the user up by the email \<open>sam@reachloud.com\<close> and the role by the name
  \<open>admin\<close>, raises when either is missing, then
  \<^verbatim>\<open>DELETE FROM user_roles WHERE user_id = v_user_id\<close>, inserts the active assignment and
  inserts the transition record with \<open>changed_by = v_user_id\<close>.
\<close>

definition assign_admin_role :: "db \<Rightarrow> timestamptz \<Rightarrow> error + db" where
  "assign_admin_role s now =
     (let v_user_id = map_option au_id
            (find (\<lambda>a. sql_eq (au_email a) (Some ''sam@reachloud.com'')) (auth_users s));
          v_admin_role_id = map_option r_id (find (\<lambda>r. r_name r = ''admin'') (roles s))
      in case v_user_id of
           None \<Rightarrow> Inl (RaiseException ''User not found'')
         | Some uid \<Rightarrow>
             (case v_admin_role_id of
                None \<Rightarrow> Inl (RaiseException ''Admin role not found'')
              | Some rid \<Rightarrow>
                  (let s1 = s\<lparr>user_roles := filter (\<lambda>ur. ur_user_id ur \<noteq> uid) (user_roles s)\<rparr>
                   in case insert_user_role s1 uid rid (Some True) now of
                        Inl e \<Rightarrow> Inl e
                      | Inr s2 \<Rightarrow>
                          insert_role_transition s2 uid rid uid
                            (Some ''Initial admin role assignment'') now)))"

section \<open>Invitation verification\<close>

text \<open>
  \<^verbatim>\<open>jsonb_set(target, '{key}', value)\<close> on a top-level key: the key's value is replaced,
  or the key is added.
\<close>

definition jsonb_set :: "jsonb \<Rightarrow> string \<Rightarrow> json \<Rightarrow> jsonb" where
  "jsonb_set m k v =
     (if list_ex (\<lambda>p. fst p = k) m then map (\<lambda>p. if fst p = k then (k, v) else p) m
      else m @ [(k, v)])"

text \<open>
  \<^verbatim>\<open>(SELECT email FROM auth.users WHERE id = user_id)\<close>: \<open>id\<close> is the primary key, so the
  subquery has at most one row; it is \<open>NULL\<close> when there is none.
\<close>

definition user_email :: "db \<Rightarrow> uuid \<Rightarrow> string option" where
  "user_email s uid =
     (case find (\<lambda>a. au_id a = uid) (auth_users s) of None \<Rightarrow> None | Some a \<Rightarrow> au_email a)"

text \<open>
  \<^verbatim>\<open>
  SELECT * INTO v_invitation FROM user_invitations
  WHERE email = (SELECT email FROM auth.users WHERE id = user_id)
  AND invitation_token = verification_token
  AND status = 'pending' AND expires_at > now();
  \<close>
\<close>

definition find_invitation :: "db \<Rightarrow> uuid \<Rightarrow> string \<Rightarrow> timestamptz \<Rightarrow> user_invitation option" where
  "find_invitation s uid verification_token now =
     find (\<lambda>i. sql_eq (Some (ui_email i)) (user_email s uid)
              \<and> invitation_token i = verification_token
              \<and> ui_status i = ''pending''
              \<and> ui_expires_at i > now) (user_invitations s)"

text \<open>
  The rows of \<^verbatim>\<open>FROM unnest(v_invitation.roles) role_name JOIN roles r ON r.name = role_name\<close>:
  for each listed name, the roles of that name. A name no role has joins with nothing.
\<close>

definition granted_roles :: "db \<Rightarrow> text_array \<Rightarrow> role list" where
  "granted_roles s names =
     concat (map (\<lambda>role_name. filter (\<lambda>r. sql_eq (Some (r_name r)) role_name) (roles s)) names)"

text \<open>
  \<open>verify_user_email(user_id, verification_token)\<close>: when the invitation is found, its
  status becomes \<open>accepted\<close>, the identity's metadata gets \<open>email_verified = true\<close>, the
  joined roles are inserted as active assignments, and the result is \<open>true\<close>; otherwise
  the result is \<open>false\<close>. The function has no exception handler.
\<close>

definition verify_user_email :: "db \<Rightarrow> uuid \<Rightarrow> string \<Rightarrow> timestamptz \<Rightarrow> error + (db \<times> bool)" where
  "verify_user_email s uid verification_token now =
     (case find_invitation s uid verification_token now of
        None \<Rightarrow> Inr (s, False)
      | Some v_invitation \<Rightarrow>
          (let s1 = s\<lparr>user_invitations :=
                      map (\<lambda>i. if ui_id i = ui_id v_invitation then i\<lparr>ui_status := ''accepted''\<rparr> else i)
                        (user_invitations s)\<rparr>;
               s2 = s1\<lparr>auth_users :=
                      map (\<lambda>a. if au_id a = uid
                            then a\<lparr>raw_user_meta_data :=
                                   Some (jsonb_set (case raw_user_meta_data a of None \<Rightarrow> [] | Some m \<Rightarrow> m)
                                           ''email_verified'' (JBool True))\<rparr>
                            else a) (auth_users s1)\<rparr>
           in case insert_user_roles s2 uid (granted_roles s2 (ui_roles v_invitation)) now of
                Inl e \<Rightarrow> Inl e
              | Inr s3 \<Rightarrow> Inr (s3, True)))"

section \<open>The directory view\<close>

text \<open>\<^verbatim>\<open>jsonb ->> 'key'\<close>: the value of a top-level key as text, \<open>NULL\<close> when absent or null.\<close>

definition json_text :: "jsonb option \<Rightarrow> string \<Rightarrow> string option" where
  "json_text m k =
     (case m of
        None \<Rightarrow> None
      | Some kv \<Rightarrow>
          (case map_of kv k of
             None \<Rightarrow> None
           | Some JNull \<Rightarrow> None
           | Some (JBool b) \<Rightarrow> Some (if b then ''true'' else ''false'')
           | Some (JString t) \<Rightarrow> Some t))"

text \<open>
  The rows of
  \<^verbatim>\<open>
  FROM auth.users au
  LEFT JOIN user_roles ur ON ur.user_id = au.id
  LEFT JOIN roles r ON r.id = ur.role_id
  WHERE ur.is_active = true OR ur.is_active IS NULL
  \<close>
\<close>

definition joined_rows :: "db \<Rightarrow> (auth_user \<times> user_role option \<times> role option) list" where
  "joined_rows s =
     concat (map (\<lambda>au.
       (case filter (\<lambda>ur. ur_user_id ur = au_id au) (user_roles s) of
          [] \<Rightarrow> [(au, None, None)]
        | urs \<Rightarrow> concat (map (\<lambda>ur.
            (case filter (\<lambda>r. r_id r = ur_role_id ur) (roles s) of
               [] \<Rightarrow> [(au, Some ur, None)]
             | rs \<Rightarrow> map (\<lambda>r. (au, Some ur, Some r)) rs)) urs))) (auth_users s))"

definition view_where :: "auth_user \<times> user_role option \<times> role option \<Rightarrow> bool" where
  "view_where row =
     (case fst (snd row) of
        None \<Rightarrow> True
      | Some ur \<Rightarrow> is_active ur = Some True \<or> is_active ur = None)"

text \<open>
  The query of the materialized view \<open>auth_users_view\<close> as the migration that adds the
  invitations defines it: one row
  per group of the identity's columns, \<open>array_agg(DISTINCT r.name)\<close> over the group (the
  names without repetition; their order is the engine's), and
  \<^verbatim>\<open>
  EXISTS (SELECT 1 FROM user_invitations ui
          WHERE ui.email = au.email AND ui.status = 'pending') as has_pending_invitation
  \<close>
\<close>

definition auth_users_view_query :: "db \<Rightarrow> directory_entry list" where
  "auth_users_view_query s =
     (let rows = filter view_where (joined_rows s)
      in map (\<lambda>au.
           \<lparr>de_id = au_id au, de_email = au_email au, user_metadata = raw_user_meta_data au,
            de_created_at = au_created_at au, de_last_sign_in_at = last_sign_in_at au,
            de_confirmed_at = confirmed_at au,
            de_is_active = (\<not> sql_eq (json_text (raw_user_meta_data au) ''is_active'') (Some ''false'')),
            de_roles = remdups (map (\<lambda>row. map_option r_name (snd (snd row)))
                         (filter (\<lambda>row. fst row = au) rows)),
            has_pending_invitation =
              list_ex (\<lambda>ui. sql_eq (Some (ui_email ui)) (au_email au) \<and> ui_status ui = ''pending'')
                (user_invitations s)\<rparr>)
         (remdups (map fst rows)))"

text \<open>
  The migration that repairs the view defines it with the same subquery for
  \<open>has_pending_invitation\<close>, and otherwise with
  \<^verbatim>\<open>LEFT JOIN roles r ON r.id = ur.role_id AND ur.is_active = true\<close>, no \<open>WHERE\<close>, and
  \<^verbatim>\<open>array_remove(array_agg(DISTINCT r.name), NULL) as roles\<close>.
\<close>

definition repaired_joined_rows :: "db \<Rightarrow> (auth_user \<times> user_role option \<times> role option) list" where
  "repaired_joined_rows s =
     concat (map (\<lambda>au.
       (case filter (\<lambda>ur. ur_user_id ur = au_id au) (user_roles s) of
          [] \<Rightarrow> [(au, None, None)]
        | urs \<Rightarrow> concat (map (\<lambda>ur.
            (case filter (\<lambda>r. r_id r = ur_role_id ur \<and> is_active ur = Some True) (roles s) of
               [] \<Rightarrow> [(au, Some ur, None)]
             | rs \<Rightarrow> map (\<lambda>r. (au, Some ur, Some r)) rs)) urs))) (auth_users s))"

definition repaired_auth_users_view_query :: "db \<Rightarrow> directory_entry list" where
  "repaired_auth_users_view_query s =
     (let rows = repaired_joined_rows s
      in map (\<lambda>au.
           \<lparr>de_id = au_id au, de_email = au_email au, user_metadata = raw_user_meta_data au,
            de_created_at = au_created_at au, de_last_sign_in_at = last_sign_in_at au,
            de_confirmed_at = confirmed_at au,
            de_is_active = (\<not> sql_eq (json_text (raw_user_meta_data au) ''is_active'') (Some ''false'')),
            de_roles = filter (\<lambda>n. n \<noteq> None)
                         (remdups (map (\<lambda>row. map_option r_name (snd (snd row)))
                            (filter (\<lambda>row. fst row = au) rows))),
            has_pending_invitation =
              list_ex (\<lambda>ui. sql_eq (Some (ui_email ui)) (au_email au) \<and> ui_status ui = ''pending'')
                (user_invitations s)\<rparr>)
         (remdups (map fst rows)))"

text \<open>
  \<^verbatim>\<open>REFRESH MATERIALIZED VIEW auth_users_view\<close>: the stored rows are rebuilt. The
  triggers that refresh the view after a statement on \<open>auth.users\<close> or \<open>user_roles\<close> are
  not part of the function bodies above, which leave \<open>auth_users_view\<close> as it is.
\<close>

definition refresh_auth_users_view :: "db \<Rightarrow> db" where
  "refresh_auth_users_view s = s\<lparr>auth_users_view := auth_users_view_query s\<rparr>"

section \<open>Example database\<close>

definition admin_role :: role where
  "admin_role = \<lparr>r_id = 1, r_name = ''admin'', r_description = Some ''Full system access'', r_level = 100\<rparr>"

definition user_role_row :: role where
  "user_role_row = \<lparr>r_id = 3, r_name = ''user'', r_description = Some ''Standard user access'', r_level = 10\<rparr>"

definition alice :: auth_user where
  "alice = \<lparr>au_id = 7, au_email = Some ''alice@x.com'', raw_user_meta_data = None,
     au_created_at = Some 0, last_sign_in_at = None, confirmed_at = None\<rparr>"

definition empty_db :: db where
  "empty_db = \<lparr>auth_uid = None, auth_users = [], roles = [], user_roles = [],
     role_transitions = [], user_invitations = [], bible_verses = [], verse_history = [],
     auth_users_view = []\<rparr>"

text \<open>
  Alice holds one assignment to \<open>admin\<close> with \<open>is_active = true\<close> that expired at time 5.
\<close>

definition expired_admin_db :: db where
  "expired_admin_db = empty_db\<lparr>auth_uid := Some 7, auth_users := [alice],
     roles := [admin_role, user_role_row],
     user_roles := [\<lparr>ur_id = 20, ur_user_id = 7, ur_role_id = 1, assigned_by = None,
        assigned_at = Some 0, ur_expires_at = Some 5, is_active = Some True\<rparr>],
     auth_users_view := [\<lparr>de_id = 7, de_email = Some ''alice@x.com'', user_metadata = None,
        de_created_at = Some 0, de_last_sign_in_at = None, de_confirmed_at = None,
        de_is_active = True, de_roles = [Some ''admin''], has_pending_invitation = False\<rparr>]\<rparr>"

text \<open>Alice is signed in and the verse table holds two verses; nothing was shown yet.\<close>

definition verse1 :: bible_verse where
  "verse1 = \<lparr>bv_id = 11, serial_number = ''001'',
     verse_text = ''I can do all this through him who gives me strength. | Philippians 4:13'',
     bv_created_at = Some 0\<rparr>"

definition verse2 :: bible_verse where
  "verse2 = \<lparr>bv_id = 12, serial_number = ''002'',
     verse_text = ''Be strong and courageous. | Joshua 1:9'', bv_created_at = Some 0\<rparr>"

definition verse_db :: db where
  "verse_db = empty_db\<lparr>auth_uid := Some 7, auth_users := [alice], bible_verses := [verse1, verse2]\<rparr>"

text \<open>Both verses were shown to Alice.\<close>

definition shown_all_db :: db where
  "shown_all_db = verse_db\<lparr>verse_history :=
     [\<lparr>vh_id = 1, vh_user_id = 7, vh_verse_id = 11, shown_at = Some 1\<rparr>,
      \<lparr>vh_id = 2, vh_user_id = 7, vh_verse_id = 12, shown_at = Some 2\<rparr>]\<rparr>"

text \<open>
  Alice is an administrator with no expiry; Bob is a second identity. The token source
  of the examples gives the \<open>k\<close>-th round a token of \<open>k + 1\<close> letters.
\<close>

definition bob :: auth_user where
  "bob = \<lparr>au_id = 8, au_email = Some ''bob@x.com'', raw_user_meta_data = None,
     au_created_at = Some 0, last_sign_in_at = None, confirmed_at = None\<rparr>"

definition admin_db :: db where
  "admin_db = empty_db\<lparr>auth_uid := Some 7, auth_users := [alice, bob],
     roles := [admin_role, user_role_row],
     user_roles := [\<lparr>ur_id = 20, ur_user_id = 7, ur_role_id = 1, assigned_by = None,
        assigned_at = Some 0, ur_expires_at = None, is_active = Some True\<rparr>]\<rparr>"

definition tokens :: "nat \<Rightarrow> string" where
  "tokens k = replicate (Suc k) CHR ''a''"

text \<open>
  Bob was invited with the roles \<open>user\<close> and \<open>editor\<close>; no role is named \<open>editor\<close>. The
  invitation is pending and expires at time 50.
\<close>

definition bob_invitation :: user_invitation where
  "bob_invitation = \<lparr>ui_id = 30, ui_email = ''bob@x.com'', invited_by = Some 7,
     ui_roles = [Some ''user'', Some ''editor''], ui_status = ''pending'',
     invitation_token = ''tok'', ui_expires_at = 50, ui_created_at = Some 0\<rparr>"

definition invited_db :: db where
  "invited_db = admin_db\<lparr>user_invitations := [bob_invitation]\<rparr>"

text \<open>
  The identity \<open>sam@reachloud.com\<close> holds an active assignment to the role \<open>user\<close>, and the
  database after the block that assigns the admin role has run at time 10.
\<close>

definition sam :: auth_user where
  "sam = \<lparr>au_id = 9, au_email = Some ''sam@reachloud.com'', raw_user_meta_data = None,
     au_created_at = Some 0, last_sign_in_at = None, confirmed_at = None\<rparr>"

definition sam_db :: db where
  "sam_db = empty_db\<lparr>auth_users := [sam], roles := [admin_role, user_role_row],
     user_roles := [\<lparr>ur_id = 21, ur_user_id = 9, ur_role_id = 3, assigned_by = None,
        assigned_at = Some 0, ur_expires_at = None, is_active = Some True\<rparr>]\<rparr>"

definition sam_admin_db :: db where
  "sam_admin_db = sam_db\<lparr>
     user_roles := [\<lparr>ur_id = 1, ur_user_id = 9, ur_role_id = 1, assigned_by = None,
        assigned_at = Some 10, ur_expires_at = None, is_active = Some True\<rparr>],
     role_transitions := [\<lparr>rt_id = 1, rt_user_id = 9, old_role_id = None, new_role_id = 1,
        changed_by = 9, reason = Some ''Initial admin role assignment'',
        rt_created_at = Some 10\<rparr>]\<rparr>"

section \<open>Properties of the access checks\<close>

text \<open>
  C1. The claim: an assignment whose \<open>expires_at\<close> lies in the past never counts toward
  \<open>has_admin_access()\<close>, even when \<open>is_active\<close> is true. On the code it does count: at
  time 10 Alice's only admin assignment expired at 5, \<open>has_role\<close> denies her the admin
  role, and \<open>has_admin_access()\<close> still answers true.
\<close>

theorem has_admin_access_ignores_expiry:
  "has_admin_access expired_admin_db = True
   \<and> has_role expired_admin_db 10 (Some 7) (Some ''admin'') = False
   \<and> map ur_expires_at (user_roles expired_admin_db) = [Some 5]"
  by (simp add: has_admin_access_def has_role_def expired_admin_db_def empty_db_def
      admin_role_def user_role_row_def sql_eq_def)

lemma get_users_denied: "\<not> has_admin_access s \<Longrightarrow> get_users s = Inl (RaiseException ''Access denied'')"
  by (simp add: get_users_def)

lemma get_users_granted: "has_admin_access s \<Longrightarrow> get_users s = Inr (auth_users_view s)"
  by (simp add: get_users_def)

lemma has_role_admin_has_admin_access:
  "has_role s now (auth_uid s) (Some ''admin'') \<Longrightarrow> has_admin_access s"
  unfolding has_role_def has_admin_access_def list_ex_iff sql_eq_def
  by (cases "auth_uid s") fastforce+

text \<open>
  C4. The claim: \<open>get_users()\<close> raises for a caller without an effective admin role and
  returns every row of \<open>auth_users_view\<close> for a caller with one. The guard is
  \<open>has_admin_access()\<close>, which does not read \<open>expires_at\<close>: at time 10 Alice holds no
  effective admin role (her assignment expired at 5, \<open>has_role\<close> is false), and
  \<open>get_users()\<close> returns the whole view to her.
\<close>

theorem get_users_admits_expired_admin:
  "get_users expired_admin_db = Inr (auth_users_view expired_admin_db)
   \<and> length (auth_users_view expired_admin_db) = 1
   \<and> has_role expired_admin_db 10 (auth_uid expired_admin_db) (Some ''admin'') = False"
  by (simp add: get_users_def has_admin_access_def has_role_def expired_admin_db_def empty_db_def
      admin_role_def user_role_row_def sql_eq_def)

section \<open>Properties of the verse rotation\<close>

lemma pick_None_iff: "pick r xs = None \<longleftrightarrow> xs = []"
  by (simp add: pick_def)

lemma pick_Some_mem: "pick r xs = Some x \<Longrightarrow> x \<in> set xs"
  by (auto simp: pick_def split: if_splits)

lemma unshown_alt: "unshown s u = filter (\<lambda>v. bv_id v \<notin> set (shown_to s u)) (bible_verses s)"
  unfolding unshown_def shown_to_def
  by (rule filter_cong) (force simp: list_ex_iff)+

lemma shown_to_delete: "shown_to (delete_history s u) u = []"
  by (simp add: shown_to_def delete_history_def)

lemma delete_history_frame:
  "auth_uid (delete_history s u) = auth_uid s"
  "auth_users (delete_history s u) = auth_users s"
  "bible_verses (delete_history s u) = bible_verses s"
  by (simp_all add: delete_history_def)

lemma insert_verse_history_Inr:
  assumes "insert_verse_history s u v now = Inr s'"
  shows "shown_to s' u = shown_to s u @ [v]"
    and "auth_uid s' = auth_uid s"
    and "auth_users s' = auth_users s"
    and "bible_verses s' = bible_verses s"
  using assms by (auto simp: insert_verse_history_def shown_to_def split: if_splits)

lemma insert_verse_history_ok:
  assumes "v \<notin> set (shown_to s u)" and "list_ex (\<lambda>a. au_id a = u) (auth_users s)"
    and "list_ex (\<lambda>b. bv_id b = v) (bible_verses s)"
  shows "\<exists>s'. insert_verse_history s u v now = Inr s'"
proof -
  have "\<not> list_ex (\<lambda>h. vh_user_id h = u \<and> vh_verse_id h = v) (verse_history s)"
    using assms(1) by (force simp: shown_to_def list_ex_iff)
  then show ?thesis using assms(2,3) by (simp add: insert_verse_history_def)
qed

lemma body_unfold:
  assumes "auth_uid s = Some u" and "daily_verse_body s r1 r2 now = Inr c"
  shows "\<exists>v. v \<in> set (bible_verses s)
           \<and> (unshown s u \<noteq> [] \<longrightarrow> v \<in> set (unshown s u))
           \<and> insert_verse_history (if unshown s u = [] then delete_history s u else s) u (bv_id v) now
               = Inr (vc_db c)
           \<and> selected_verse_id c = bv_id v \<and> selected_verse c = verse_text v
           \<and> history_reset c = (unshown s u = [])"
proof (cases "unshown s u = []")
  case True
  with assms show ?thesis
    by (auto simp: daily_verse_body_def Let_def pick_None_iff delete_history_frame
        split: option.splits sum.splits dest: pick_Some_mem)
next
  case False
  then obtain v where v: "pick r1 (unshown s u) = Some v"
    by (cases "pick r1 (unshown s u)") (auto simp: pick_None_iff)
  then have "v \<in> set (unshown s u)" by (rule pick_Some_mem)
  moreover then have "v \<in> set (bible_verses s)" by (simp add: unshown_def)
  ultimately show ?thesis using assms False v
    by (auto simp: daily_verse_body_def Let_def split: sum.splits)
qed

lemma body_Inr:
  assumes "auth_uid s = Some u" and "daily_verse_body s r1 r2 now = Inr c"
  shows "auth_uid (vc_db c) = Some u"
    and "auth_users (vc_db c) = auth_users s"
    and "bible_verses (vc_db c) = bible_verses s"
    and "\<exists>v\<in>set (bible_verses s). selected_verse_id c = bv_id v \<and> selected_verse c = verse_text v"
    and "history_reset c \<longleftrightarrow> unshown s u = []"
    and "history_reset c \<Longrightarrow> shown_to (vc_db c) u = [selected_verse_id c]"
    and "\<not> history_reset c \<Longrightarrow> shown_to (vc_db c) u = shown_to s u @ [selected_verse_id c]"
    and "\<not> history_reset c \<Longrightarrow> selected_verse_id c \<notin> set (shown_to s u)"
proof -
  from body_unfold [OF assms] obtain v where
    v: "v \<in> set (bible_verses s)" "unshown s u \<noteq> [] \<longrightarrow> v \<in> set (unshown s u)"
    and ins: "insert_verse_history (if unshown s u = [] then delete_history s u else s) u (bv_id v) now
               = Inr (vc_db c)"
    and sel: "selected_verse_id c = bv_id v" "selected_verse c = verse_text v"
    and rs: "history_reset c = (unshown s u = [])"
    by blast
  note fr = insert_verse_history_Inr [OF ins]
  show "auth_uid (vc_db c) = Some u" using fr(2) assms(1) by (simp add: delete_history_frame split: if_splits)
  show "auth_users (vc_db c) = auth_users s" using fr(3) by (simp add: delete_history_frame split: if_splits)
  show "bible_verses (vc_db c) = bible_verses s" using fr(4) by (simp add: delete_history_frame split: if_splits)
  show "\<exists>v\<in>set (bible_verses s). selected_verse_id c = bv_id v \<and> selected_verse c = verse_text v"
    using v(1) sel by blast
  show "history_reset c \<longleftrightarrow> unshown s u = []" by (rule rs)
  show "history_reset c \<Longrightarrow> shown_to (vc_db c) u = [selected_verse_id c]"
    using fr(1) rs sel by (simp add: shown_to_delete)
  show "\<not> history_reset c \<Longrightarrow> shown_to (vc_db c) u = shown_to s u @ [selected_verse_id c]"
    using fr(1) rs sel by simp
  show "\<not> history_reset c \<Longrightarrow> selected_verse_id c \<notin> set (shown_to s u)"
    using v(2) rs sel by (simp add: unshown_alt)
qed

lemma calls_no_reset:
  assumes "auth_uid s = Some u" and "daily_verse_calls s cs = Inr (s', tr)"
    and "list_all (\<lambda>c. \<not> history_reset c) tr"
  shows "shown_to s' u = shown_to s u @ map selected_verse_id tr
         \<and> distinct (map selected_verse_id tr)
         \<and> set (map selected_verse_id tr) \<inter> set (shown_to s u) = {}
         \<and> auth_uid s' = Some u \<and> auth_users s' = auth_users s \<and> bible_verses s' = bible_verses s"
  using assms
proof (induction cs arbitrary: s tr)
  case Nil
  then show ?case by simp
next
  case (Cons a cs)
  obtain r1 r2 now where a: "a = (r1, r2, now)" by (cases a)
  from Cons.prems(2) a obtain c tr' where
    c: "daily_verse_body s r1 r2 now = Inr c"
    and rest: "daily_verse_calls (vc_db c) cs = Inr (s', tr')"
    and tr: "tr = c # tr'"
    by (auto split: sum.splits)
  from Cons.prems(3) tr have nr: "\<not> history_reset c" and nrs: "list_all (\<lambda>c. \<not> history_reset c) tr'"
    by simp_all
  note b = body_Inr [OF Cons.prems(1) c]
  from Cons.IH [OF b(1) rest nrs] b(2,3) b(7) [OF nr] b(8) [OF nr] tr
  show ?case by auto
qed


lemma unshown_nonempty:
  assumes "distinct (map bv_id (bible_verses s))" and "distinct (shown_to s u)"
    and "length (shown_to s u) < length (bible_verses s)"
  shows "unshown s u \<noteq> []"
proof -
  have "card (set (shown_to s u)) < card (bv_id ` set (bible_verses s))"
    using assms distinct_card [of "shown_to s u"] distinct_card [of "map bv_id (bible_verses s)"]
    by simp
  then have "\<not> bv_id ` set (bible_verses s) \<subseteq> set (shown_to s u)"
    using card_mono [of "set (shown_to s u)" "bv_id ` set (bible_verses s)"] by auto
  then obtain v where "v \<in> set (bible_verses s)" "bv_id v \<notin> set (shown_to s u)" by auto
  then show ?thesis by (auto simp: unshown_alt filter_empty_conv)
qed

lemma unshown_empty:
  assumes "distinct (map bv_id (bible_verses s))" and "distinct (shown_to s u)"
    and "set (shown_to s u) \<subseteq> bv_id ` set (bible_verses s)"
    and "length (shown_to s u) = length (bible_verses s)"
  shows "unshown s u = []"
proof -
  have "card (set (shown_to s u)) = card (bv_id ` set (bible_verses s))"
    using assms distinct_card [of "shown_to s u"] distinct_card [of "map bv_id (bible_verses s)"]
    by simp
  with assms(3) have "set (shown_to s u) = bv_id ` set (bible_verses s)"
    by (intro card_subset_eq) auto
  then show ?thesis by (auto simp: unshown_alt filter_empty_conv)
qed

lemma body_ok_unshown:
  assumes "auth_uid s = Some u" and "list_ex (\<lambda>a. au_id a = u) (auth_users s)"
    and "unshown s u \<noteq> []"
  shows "\<exists>c. daily_verse_body s r1 r2 now = Inr c \<and> \<not> history_reset c"
proof -
  from assms(3) obtain v where v: "pick r1 (unshown s u) = Some v"
    by (cases "pick r1 (unshown s u)") (auto simp: pick_None_iff)
  then have m: "v \<in> set (unshown s u)" by (rule pick_Some_mem)
  then have "bv_id v \<notin> set (shown_to s u)" "list_ex (\<lambda>b. bv_id b = bv_id v) (bible_verses s)"
    by (auto simp: unshown_alt list_ex_iff)
  from insert_verse_history_ok [OF this(1) assms(2) this(2)]
  obtain s' where "insert_verse_history s u (bv_id v) now = Inr s'" by blast
  with v assms(1) show ?thesis by (simp add: daily_verse_body_def Let_def)
qed

lemma body_ok_reset:
  assumes "auth_uid s = Some u" and "list_ex (\<lambda>a. au_id a = u) (auth_users s)"
    and "unshown s u = []" and "bible_verses s \<noteq> []"
  shows "\<exists>c v. daily_verse_body s r1 r2 now = Inr c \<and> history_reset c
           \<and> pick r2 (bible_verses s) = Some v
           \<and> selected_verse_id c = bv_id v \<and> selected_verse c = verse_text v"
proof -
  from assms(4) obtain v where v: "pick r2 (bible_verses s) = Some v"
    by (cases "pick r2 (bible_verses s)") (auto simp: pick_None_iff)
  then have m: "v \<in> set (bible_verses s)" by (rule pick_Some_mem)
  have "bv_id v \<notin> set (shown_to (delete_history s u) u)"
    "list_ex (\<lambda>a. au_id a = u) (auth_users (delete_history s u))"
    "list_ex (\<lambda>b. bv_id b = bv_id v) (bible_verses (delete_history s u))"
    using m assms(2) by (auto simp: shown_to_delete delete_history_frame list_ex_iff)
  from insert_verse_history_ok [OF this]
  obtain s' where "insert_verse_history (delete_history s u) u (bv_id v) now = Inr s'" by blast
  with v assms(1,3) show ?thesis
    by (simp add: daily_verse_body_def Let_def pick_None_iff delete_history_frame)
qed

lemma calls_ok:
  assumes "auth_uid s = Some u" and "list_ex (\<lambda>a. au_id a = u) (auth_users s)"
    and "distinct (map bv_id (bible_verses s))" and "distinct (shown_to s u)"
    and "length (shown_to s u) + length cs \<le> length (bible_verses s)"
  shows "\<exists>s' tr. daily_verse_calls s cs = Inr (s', tr) \<and> list_all (\<lambda>c. \<not> history_reset c) tr
           \<and> length tr = length cs"
  using assms
proof (induction cs arbitrary: s)
  case Nil
  then show ?case by simp
next
  case (Cons a cs)
  obtain r1 r2 now where a: "a = (r1, r2, now)" by (cases a)
  from Cons.prems(5) have "length (shown_to s u) < length (bible_verses s)" by simp
  from unshown_nonempty [OF Cons.prems(3,4) this]
  have "unshown s u \<noteq> []" .
  from body_ok_unshown [OF Cons.prems(1,2) this]
  obtain c where c: "daily_verse_body s r1 r2 now = Inr c" and nr: "\<not> history_reset c" by blast
  note b = body_Inr [OF Cons.prems(1) c]
  have "\<exists>s' tr. daily_verse_calls (vc_db c) cs = Inr (s', tr)
          \<and> list_all (\<lambda>c. \<not> history_reset c) tr \<and> length tr = length cs"
  proof (rule Cons.IH)
    show "auth_uid (vc_db c) = Some u" by (rule b(1))
    show "list_ex (\<lambda>a. au_id a = u) (auth_users (vc_db c))" using Cons.prems(2) b(2) by simp
    show "distinct (map bv_id (bible_verses (vc_db c)))" using Cons.prems(3) b(3) by simp
    show "distinct (shown_to (vc_db c) u)" using Cons.prems(4) b(7) [OF nr] b(8) [OF nr] by simp
    show "length (shown_to (vc_db c) u) + length cs \<le> length (bible_verses (vc_db c))"
      using Cons.prems(5) b(3) b(7) [OF nr] by simp
  qed
  then obtain s' tr where "daily_verse_calls (vc_db c) cs = Inr (s', tr)"
    "list_all (\<lambda>c. \<not> history_reset c) tr" "length tr = length cs" by blast
  with c nr a show ?case by simp
qed

lemma calls_selected_mem:
  assumes "auth_uid s = Some u" and "daily_verse_calls s cs = Inr (s', tr)"
  shows "selected_verse_id ` set tr \<subseteq> bv_id ` set (bible_verses s)"
  using assms
proof (induction cs arbitrary: s tr)
  case Nil
  then show ?case by simp
next
  case (Cons a cs)
  obtain r1 r2 now where a: "a = (r1, r2, now)" by (cases a)
  from Cons.prems(2) a obtain c tr' where
    c: "daily_verse_body s r1 r2 now = Inr c"
    and rest: "daily_verse_calls (vc_db c) cs = Inr (s', tr')"
    and tr: "tr = c # tr'"
    by (auto split: sum.splits)
  note b = body_Inr [OF Cons.prems(1) c]
  from Cons.IH [OF b(1) rest] b(3,4) tr show ?case by auto
qed

text \<open>
  C2. With \<open>N \<ge> 1\<close> verses (their ids distinct, as the primary key has them) and an
  authenticated user who has no history row, \<open>N\<close> calls of \<open>get_daily_verse()\<close> all
  succeed and leave exactly \<open>N\<close> history rows of the user with \<open>N\<close> distinct verse ids.
  The next call, whatever its random sources, takes the reset branch, returns the verse
  its second query draws from the whole verse table, and leaves one history row of the
  user, the row of that verse.
\<close>

theorem exhaustion_cycle:
  assumes "auth_uid s = Some u" and "list_ex (\<lambda>a. au_id a = u) (auth_users s)"
    and "distinct (map bv_id (bible_verses s))"
    and "filter (\<lambda>h. vh_user_id h = u) (verse_history s) = []"
    and "length cs = length (bible_verses s)" and "1 \<le> length (bible_verses s)"
  shows "\<exists>s' tr. daily_verse_calls s cs = Inr (s', tr)
           \<and> length (filter (\<lambda>h. vh_user_id h = u) (verse_history s')) = length (bible_verses s)
           \<and> distinct (shown_to s' u)
           \<and> (\<forall>r1 r2 now. \<exists>c v. daily_verse_body s' r1 r2 now = Inr c
                 \<and> get_daily_verse s' r1 r2 now = Inr (vc_db c, [verse_text v])
                 \<and> history_reset c
                 \<and> pick r2 (bible_verses s) = Some v
                 \<and> map vh_verse_id (filter (\<lambda>h. vh_user_id h = u) (verse_history (vc_db c))) = [bv_id v])"
proof -
  have sh: "shown_to s u = []" using assms(4) by (simp add: shown_to_def)
  have "\<exists>s' tr. daily_verse_calls s cs = Inr (s', tr) \<and> list_all (\<lambda>c. \<not> history_reset c) tr
           \<and> length tr = length cs"
    by (rule calls_ok [OF assms(1,2,3)]) (simp_all add: sh assms(5))
  then obtain s' tr where run: "daily_verse_calls s cs = Inr (s', tr)"
    and nr: "list_all (\<lambda>c. \<not> history_reset c) tr" and len: "length tr = length cs" by blast
  from calls_no_reset [OF assms(1) run nr] sh
  have st: "shown_to s' u = map selected_verse_id tr" "distinct (map selected_verse_id tr)"
    "auth_uid s' = Some u" "auth_users s' = auth_users s" "bible_verses s' = bible_verses s"
    by simp_all
  have l: "length (shown_to s' u) = length (bible_verses s)" using st(1) len assms(5) by simp
  have sub: "set (shown_to s' u) \<subseteq> bv_id ` set (bible_verses s')"
    using calls_selected_mem [OF assms(1) run] st(1,5) by simp
  have e: "unshown s' u = []"
    by (rule unshown_empty) (use st assms(3) l sub in simp_all)
  have fin: "\<exists>c v. daily_verse_body s' r1 r2 now = Inr c
                 \<and> get_daily_verse s' r1 r2 now = Inr (vc_db c, [verse_text v])
                 \<and> history_reset c
                 \<and> pick r2 (bible_verses s) = Some v
                 \<and> map vh_verse_id (filter (\<lambda>h. vh_user_id h = u) (verse_history (vc_db c))) = [bv_id v]"
    for r1 r2 now
  proof -
    have ex: "list_ex (\<lambda>a. au_id a = u) (auth_users s')" using assms(2) st(4) by simp
    have ne: "bible_verses s' \<noteq> []" using assms(6) st(5) by auto
    from body_ok_reset [OF st(3) ex e ne, where ?r1.0 = r1 and ?r2.0 = r2 and now = now] st(5)
    obtain c v where c: "daily_verse_body s' r1 r2 now = Inr c" "history_reset c"
      "pick r2 (bible_verses s) = Some v" "selected_verse_id c = bv_id v"
      "selected_verse c = verse_text v"
      by auto
    from body_Inr(6) [OF st(3) c(1) c(2)] c(4)
    have "map vh_verse_id (filter (\<lambda>h. vh_user_id h = u) (verse_history (vc_db c))) = [bv_id v]"
      by (simp add: shown_to_def)
    with c show ?thesis by (auto simp: get_daily_verse_def)
  qed
  have "length (filter (\<lambda>h. vh_user_id h = u) (verse_history s')) = length (bible_verses s)"
    using l by (simp add: shown_to_def)
  with run st(1,2) fin show ?thesis by auto
qed


lemmas ex_defs = verse_db_def verse1_def verse2_def empty_db_def alice_def shown_all_db_def

theorem exhaustion_cycle_witness:
  "auth_uid verse_db = Some 7 \<and> list_ex (\<lambda>a. au_id a = 7) (auth_users verse_db)
   \<and> distinct (map bv_id (bible_verses verse_db))
   \<and> filter (\<lambda>h. vh_user_id h = 7) (verse_history verse_db) = []
   \<and> length [(0 :: nat, 0 :: nat, 1 :: timestamptz), (5, 0, 2)] = length (bible_verses verse_db)
   \<and> 1 \<le> length (bible_verses verse_db)
   \<and> (\<exists>s' tr. daily_verse_calls verse_db [(0, 0, 1), (5, 0, 2)] = Inr (s', tr)
           \<and> length (filter (\<lambda>h. vh_user_id h = 7) (verse_history s')) = 2
           \<and> distinct (shown_to s' 7)
           \<and> (\<forall>r1 r2 now. \<exists>c v. daily_verse_body s' r1 r2 now = Inr c
                 \<and> get_daily_verse s' r1 r2 now = Inr (vc_db c, [verse_text v])
                 \<and> history_reset c
                 \<and> pick r2 (bible_verses verse_db) = Some v
                 \<and> map vh_verse_id (filter (\<lambda>h. vh_user_id h = 7) (verse_history (vc_db c))) = [bv_id v]))"
proof -
  have h1: "auth_uid verse_db = Some 7" by (simp add: ex_defs)
  have h2: "list_ex (\<lambda>a. au_id a = 7) (auth_users verse_db)" by (simp add: ex_defs)
  have h3: "distinct (map bv_id (bible_verses verse_db))" by (simp add: ex_defs)
  have h4: "filter (\<lambda>h. vh_user_id h = 7) (verse_history verse_db) = []" by (simp add: ex_defs)
  have h5: "length [(0 :: nat, 0 :: nat, 1 :: timestamptz), (5, 0, 2)] = length (bible_verses verse_db)"
    by (simp add: ex_defs)
  have h6: "1 \<le> length (bible_verses verse_db)" by (simp add: ex_defs)
  have n: "length (bible_verses verse_db) = 2" by (simp add: ex_defs)
  from exhaustion_cycle [OF h1 h2 h3 h4 h5 h6] n h1 h2 h3 h4 h5 h6 show ?thesis by simp
qed

text \<open>
  C3. In a run of successful calls in which no call after the first resets the history,
  any two calls selected different verse ids. The selection query offers no verse that
  has a history row of the user, and \<open>UNIQUE(user_id, verse_id)\<close> rejects the insert of a
  pair that is already recorded.
\<close>

theorem no_repeat_within_cycle:
  "(daily_verse_calls s cs = Inr (s', tr) \<and> list_all (\<lambda>c. \<not> history_reset c) (tl tr)
      \<longrightarrow> (\<forall>i j. i < length tr \<and> j < length tr \<and> i \<noteq> j
             \<longrightarrow> selected_verse_id (tr ! i) \<noteq> selected_verse_id (tr ! j)))
   \<and> (pick r (unshown s u) = Some v
      \<longrightarrow> \<not> list_ex (\<lambda>h. vh_verse_id h = bv_id v \<and> vh_user_id h = u) (verse_history s))
   \<and> (list_ex (\<lambda>h. vh_user_id h = u \<and> vh_verse_id h = w) (verse_history s)
      \<longrightarrow> insert_verse_history s u w now = Inl (UniqueViolation ''verse_history_user_id_verse_id_key''))"
proof (intro conjI impI)
  assume a: "daily_verse_calls s cs = Inr (s', tr) \<and> list_all (\<lambda>c. \<not> history_reset c) (tl tr)"
  have "distinct (map selected_verse_id tr)"
  proof (cases cs)
    case Nil
    with a show ?thesis by simp
  next
    case (Cons x cs')
    obtain r1 r2 t where x: "x = (r1, r2, t)" by (cases x)
    from a Cons x obtain c tr' where
      c: "daily_verse_body s r1 r2 t = Inr c"
      and rest: "daily_verse_calls (vc_db c) cs' = Inr (s', tr')"
      and tr: "tr = c # tr'"
      by (auto split: sum.splits)
    from c obtain u' where au: "auth_uid s = Some u'"
      by (cases "auth_uid s") (auto simp: daily_verse_body_def)
    note b = body_Inr [OF au c]
    have nr: "list_all (\<lambda>c. \<not> history_reset c) tr'" using a tr by simp
    from calls_no_reset [OF b(1) rest nr]
    have d: "distinct (map selected_verse_id tr')"
      and dj: "set (map selected_verse_id tr') \<inter> set (shown_to (vc_db c) u') = {}" by simp_all
    have "selected_verse_id c \<in> set (shown_to (vc_db c) u')"
      using b(6) b(7) by (cases "history_reset c") simp_all
    with d dj tr show ?thesis by auto
  qed
  then show "\<forall>i j. i < length tr \<and> j < length tr \<and> i \<noteq> j
             \<longrightarrow> selected_verse_id (tr ! i) \<noteq> selected_verse_id (tr ! j)"
    by (auto simp: distinct_conv_nth)
next
  assume "pick r (unshown s u) = Some v"
  then have "v \<in> set (unshown s u)" by (rule pick_Some_mem)
  then show "\<not> list_ex (\<lambda>h. vh_verse_id h = bv_id v \<and> vh_user_id h = u) (verse_history s)"
    by (simp add: unshown_def)
next
  assume "list_ex (\<lambda>h. vh_user_id h = u \<and> vh_verse_id h = w) (verse_history s)"
  then show "insert_verse_history s u w now = Inl (UniqueViolation ''verse_history_user_id_verse_id_key'')"
    by (simp add: insert_verse_history_def)
qed

lemmas vr_defs = daily_verse_body_def pick_def unshown_def insert_verse_history_def
  delete_history_def fresh_id_def Let_def

theorem no_repeat_within_cycle_witness:
  "\<exists>s' c1 c2. daily_verse_calls verse_db [(0, 0, 1), (5, 0, 2)] = Inr (s', [c1, c2])
     \<and> list_all (\<lambda>c. \<not> history_reset c) (tl [c1, c2])
     \<and> selected_verse_id c1 = 11 \<and> selected_verse_id c2 = 12
     \<and> selected_verse_id ([c1, c2] ! 0) \<noteq> selected_verse_id ([c1, c2] ! 1)
     \<and> pick 0 (unshown s' 7) = None
     \<and> pick 5 (unshown (vc_db c1) 7) = Some verse2
     \<and> \<not> list_ex (\<lambda>h. vh_verse_id h = bv_id verse2 \<and> vh_user_id h = 7) (verse_history (vc_db c1))
     \<and> list_ex (\<lambda>h. vh_user_id h = 7 \<and> vh_verse_id h = 11) (verse_history (vc_db c1))
     \<and> insert_verse_history (vc_db c1) 7 11 9 = Inl (UniqueViolation ''verse_history_user_id_verse_id_key'')"
proof -
  obtain s' c1 c2 where run: "daily_verse_calls verse_db [(0, 0, 1), (5, 0, 2)] = Inr (s', [c1, c2])"
    and nr: "list_all (\<lambda>c. \<not> history_reset c) (tl [c1, c2])"
    and ids: "selected_verse_id c1 = 11" "selected_verse_id c2 = 12"
    and p0: "pick 0 (unshown s' 7) = None"
    and p: "pick 5 (unshown (vc_db c1) 7) = Some verse2"
    and ex: "list_ex (\<lambda>h. vh_user_id h = 7 \<and> vh_verse_id h = 11) (verse_history (vc_db c1))"
    by (simp add: vr_defs ex_defs)
  have "\<forall>i j. i < length [c1, c2] \<and> j < length [c1, c2] \<and> i \<noteq> j
             \<longrightarrow> selected_verse_id ([c1, c2] ! i) \<noteq> selected_verse_id ([c1, c2] ! j)"
    by (rule mp [OF conjunct1 [OF no_repeat_within_cycle]]) (rule conjI [OF run nr])
  from this [rule_format, of 0 1]
  have a: "selected_verse_id ([c1, c2] ! 0) \<noteq> selected_verse_id ([c1, c2] ! 1)"
    by simp
  have "\<not> list_ex (\<lambda>h. vh_verse_id h = bv_id verse2 \<and> vh_user_id h = 7) (verse_history (vc_db c1))"
    by (rule mp [OF conjunct1 [OF conjunct2 [OF no_repeat_within_cycle]]]) (rule p)
  moreover
  have "insert_verse_history (vc_db c1) 7 11 9 = Inl (UniqueViolation ''verse_history_user_id_verse_id_key'')"
    by (rule mp [OF conjunct2 [OF conjunct2 [OF no_repeat_within_cycle]]]) (rule ex)
  ultimately have b:
    "\<not> list_ex (\<lambda>h. vh_verse_id h = bv_id verse2 \<and> vh_user_id h = 7) (verse_history (vc_db c1))"
    "insert_verse_history (vc_db c1) 7 11 9 = Inl (UniqueViolation ''verse_history_user_id_verse_id_key'')"
    by simp_all
  from run nr ids p0 p ex a b show ?thesis by blast
qed

text \<open>
  C5. \<open>get_daily_verse()\<close> raises \<open>User not authenticated\<close> for a caller with no identity
  and \<open>No verses available\<close> when the verse table is empty; a raised error returns no
  database, so nothing the call wrote remains. When every verse has been shown to the
  caller, the call does not raise: it resets the history and returns the verse its second
  query draws. Whatever a call returns is one row holding the text of a verse of the
  table.
\<close>

theorem daily_verse_raises:
  "(auth_uid s = None
      \<longrightarrow> get_daily_verse s r1 r2 now = Inl (RaiseException ''User not authenticated''))
   \<and> (auth_uid s = Some u \<and> bible_verses s = []
      \<longrightarrow> get_daily_verse s r1 r2 now = Inl (RaiseException ''No verses available''))
   \<and> (auth_uid s = Some u \<and> list_ex (\<lambda>a. au_id a = u) (auth_users s)
        \<and> bible_verses s \<noteq> [] \<and> unshown s u = []
      \<longrightarrow> (\<exists>s' v. get_daily_verse s r1 r2 now = Inr (s', [verse_text v])
             \<and> pick r2 (bible_verses s) = Some v \<and> shown_to s' u = [bv_id v]))
   \<and> (get_daily_verse s r1 r2 now = Inr (s'', rows)
      \<longrightarrow> (\<exists>v. v \<in> set (bible_verses s) \<and> rows = [verse_text v]))"
proof (intro conjI impI)
  assume "auth_uid s = None"
  then show "get_daily_verse s r1 r2 now = Inl (RaiseException ''User not authenticated'')"
    by (simp add: get_daily_verse_def daily_verse_body_def)
next
  assume "auth_uid s = Some u \<and> bible_verses s = []"
  then show "get_daily_verse s r1 r2 now = Inl (RaiseException ''No verses available'')"
    by (simp add: get_daily_verse_def daily_verse_body_def unshown_def pick_def
        delete_history_def)
next
  assume a: "auth_uid s = Some u \<and> list_ex (\<lambda>a. au_id a = u) (auth_users s)
        \<and> bible_verses s \<noteq> [] \<and> unshown s u = []"
  then have au: "auth_uid s = Some u" and ex: "list_ex (\<lambda>a. au_id a = u) (auth_users s)"
    and ne: "bible_verses s \<noteq> []" and e: "unshown s u = []" by simp_all
  from body_ok_reset [OF au ex e ne, where ?r1.0 = r1 and ?r2.0 = r2 and now = now]
  obtain c v where c: "daily_verse_body s r1 r2 now = Inr c" "history_reset c"
    "pick r2 (bible_verses s) = Some v" "selected_verse_id c = bv_id v"
    "selected_verse c = verse_text v"
    by blast
  from body_Inr(6) [OF au c(1) c(2)] c(4) have "shown_to (vc_db c) u = [bv_id v]" by simp
  with c show "\<exists>s' v. get_daily_verse s r1 r2 now = Inr (s', [verse_text v])
             \<and> pick r2 (bible_verses s) = Some v \<and> shown_to s' u = [bv_id v]"
    by (auto simp: get_daily_verse_def)
next
  assume r: "get_daily_verse s r1 r2 now = Inr (s'', rows)"
  then obtain c where c: "daily_verse_body s r1 r2 now = Inr c" and rows: "rows = [selected_verse c]"
    by (auto simp: get_daily_verse_def split: sum.splits)
  from c obtain u' where au: "auth_uid s = Some u'"
    by (cases "auth_uid s") (auto simp: daily_verse_body_def)
  from body_Inr(4) [OF au c] rows
  show "\<exists>v. v \<in> set (bible_verses s) \<and> rows = [verse_text v]" by auto
qed

theorem daily_verse_raises_witness:
  "get_daily_verse (verse_db\<lparr>auth_uid := None\<rparr>) 0 0 3 = Inl (RaiseException ''User not authenticated'')
   \<and> get_daily_verse (verse_db\<lparr>bible_verses := []\<rparr>) 0 0 3 = Inl (RaiseException ''No verses available'')
   \<and> unshown shown_all_db 7 = []
   \<and> (\<exists>s'. get_daily_verse shown_all_db 0 1 3 = Inr (s', [verse_text verse2])
         \<and> shown_to s' 7 = [bv_id verse2])
   \<and> (\<exists>v. v \<in> set (bible_verses shown_all_db) \<and> [verse_text verse2] = [verse_text v])"
proof -
  have "auth_uid (verse_db\<lparr>auth_uid := None\<rparr>) = None" by simp
  with daily_verse_raises [where s = "verse_db\<lparr>auth_uid := None\<rparr>" and ?r1.0 = 0 and ?r2.0 = 0 and now = 3]
  have a: "get_daily_verse (verse_db\<lparr>auth_uid := None\<rparr>) 0 0 3 = Inl (RaiseException ''User not authenticated'')"
    by blast
  have "auth_uid (verse_db\<lparr>bible_verses := []\<rparr>) = Some 7 \<and> bible_verses (verse_db\<lparr>bible_verses := []\<rparr>) = []"
    by (simp add: ex_defs)
  with daily_verse_raises [where s = "verse_db\<lparr>bible_verses := []\<rparr>" and u = 7 and ?r1.0 = 0 and ?r2.0 = 0 and now = 3]
  have b: "get_daily_verse (verse_db\<lparr>bible_verses := []\<rparr>) 0 0 3 = Inl (RaiseException ''No verses available'')"
    by blast
  have e: "unshown shown_all_db 7 = []" by (simp add: unshown_def ex_defs)
  have h: "auth_uid shown_all_db = Some 7 \<and> list_ex (\<lambda>a. au_id a = 7) (auth_users shown_all_db)
        \<and> bible_verses shown_all_db \<noteq> [] \<and> unshown shown_all_db 7 = []"
    using e by (simp add: ex_defs)
  have p: "pick 1 (bible_verses shown_all_db) = Some verse2" by (simp add: pick_def ex_defs)
  from daily_verse_raises [where s = shown_all_db and u = 7 and ?r1.0 = 0 and ?r2.0 = 1 and now = 3] h
  obtain s' v where "get_daily_verse shown_all_db 0 1 3 = Inr (s', [verse_text v])"
    "pick 1 (bible_verses shown_all_db) = Some v" "shown_to s' 7 = [bv_id v]"
    by blast
  with p have c: "\<exists>s'. get_daily_verse shown_all_db 0 1 3 = Inr (s', [verse_text verse2])
         \<and> shown_to s' 7 = [bv_id verse2]" by auto
  then obtain s1 where run: "get_daily_verse shown_all_db 0 1 3 = Inr (s1, [verse_text verse2])"
    by blast
  have d: "\<exists>v. v \<in> set (bible_verses shown_all_db) \<and> [verse_text verse2] = [verse_text v]"
    by (rule mp [OF conjunct2 [OF conjunct2 [OF conjunct2 [OF daily_verse_raises]]] run])
  show ?thesis by (intro conjI a b e c d)
qed

section \<open>Properties of the invitations\<close>

lemmas inv_defs = admin_db_def empty_db_def alice_def bob_def admin_role_def user_role_row_def
  tokens_def invited_db_def bob_invitation_def sam_def sam_db_def sam_admin_db_def

lemma bulk_item_ambiguous:
  "bulk_item s rs token now e =
     (s, \<lparr>br_email = e, br_status = ''error'',
          br_message = ''column reference '' @ quoted ''email'' @ '' is ambiguous''\<rparr>)"
  by (simp add: bulk_item_def column_reference_def bulk_create_users_variables_def
      auth_users_columns_def sqlerrm_def)

lemma bulk_loop_all_errors:
  "bulk_loop s rs rnd now k es =
     (s, map (\<lambda>e. \<lparr>br_email = e, br_status = ''error'',
                    br_message = ''column reference '' @ quoted ''email'' @ '' is ambiguous''\<rparr>) es)"
  by (induction es arbitrary: k) (simp_all add: bulk_item_ambiguous)

lemma bulk_create_users_all_errors:
  assumes "has_admin_access s"
  shows "bulk_create_users s emails rs rnd now =
     Inr (s, map (\<lambda>e. \<lparr>br_email = e, br_status = ''error'',
                    br_message = ''column reference '' @ quoted ''email'' @ '' is ambiguous''\<rparr>) emails)"
  using assms by (simp add: bulk_create_users_def bulk_loop_all_errors)

lemma admin_db_has_admin_access: "has_admin_access admin_db"
  by (simp add: has_admin_access_def sql_eq_def inv_defs)

text \<open>
  C8. The claim: for an admin caller \<open>bulk_create_users\<close> returns one row per email, an
  email that an identity already has gets the row \<open>(email, error, User already exists)\<close>,
  and one email's failure does not abort the others. The function does return one row
  per email and never aborts, but the existence test names the column \<open>email\<close> without a
  qualifier, and \<open>email\<close> is also an output column of the function: every round ends in
  the handler. Bob has an identity and Carol has none; both get the row
  \<open>(email, error, column reference "email" is ambiguous)\<close>, and no invitation is stored.
\<close>

theorem bulk_create_users_never_reaches_existence_test:
  "bulk_create_users admin_db [Some ''bob@x.com'', Some ''carol@x.com''] [Some ''user''] tokens 100
     = Inr (admin_db,
            [\<lparr>br_email = Some ''bob@x.com'', br_status = ''error'',
               br_message = ''column reference '' @ quoted ''email'' @ '' is ambiguous''\<rparr>,
             \<lparr>br_email = Some ''carol@x.com'', br_status = ''error'',
               br_message = ''column reference '' @ quoted ''email'' @ '' is ambiguous''\<rparr>])
   \<and> list_ex (\<lambda>a. sql_eq (au_email a) (Some ''bob@x.com'')) (auth_users admin_db)
   \<and> \<not> list_ex (\<lambda>a. sql_eq (au_email a) (Some ''carol@x.com'')) (auth_users admin_db)
   \<and> user_invitations admin_db = []"
proof -
  have "list_ex (\<lambda>a. sql_eq (au_email a) (Some ''bob@x.com'')) (auth_users admin_db)"
    and "\<not> list_ex (\<lambda>a. sql_eq (au_email a) (Some ''carol@x.com'')) (auth_users admin_db)"
    and "user_invitations admin_db = []"
    by (simp_all add: sql_eq_def inv_defs)
  then show ?thesis
    by (simp add: bulk_create_users_all_errors [OF admin_db_has_admin_access])
qed

text \<open>
  C7. The claim: \<open>invite_users\<close> handles each email on its own, so that a failing insert
  does not abort the others. On the code it does abort: for the emails
  \<open>carol@x.com\<close>, \<open>NULL\<close>, \<open>dave@x.com\<close> the second insert violates \<open>NOT NULL\<close> and the
  whole call ends with that error, with no invitation for Carol or Dave, although the
  same call without the \<open>NULL\<close> invites both and the call for Carol alone invites her.
\<close>

theorem invite_users_aborts_on_failure:
  "invite_users admin_db [Some ''carol@x.com'', None, Some ''dave@x.com''] [Some ''user''] tokens 100
     = Inl (NotNullViolation ''user_invitations'' ''email'')
   \<and> map_sum id (\<lambda>r. map ui_email (snd r))
       (invite_users admin_db [Some ''carol@x.com'', Some ''dave@x.com''] [Some ''user''] tokens 100)
     = Inr [''carol@x.com'', ''dave@x.com'']
   \<and> map_sum id (\<lambda>r. map ui_email (snd r))
       (invite_users admin_db [Some ''carol@x.com''] [Some ''user''] tokens 100)
     = Inr [''carol@x.com'']"
  by code_simp

section \<open>Properties of the invitation verification\<close>

lemma insert_user_role_Inr:
  assumes "insert_user_role s uid rid act now = Inr s'"
  shows "\<exists>ur. user_roles s' = user_roles s @ [ur] \<and> ur_user_id ur = uid \<and> ur_role_id ur = rid
           \<and> is_active ur = act"
    and "roles s' = roles s" and "auth_users s' = auth_users s"
    and "role_transitions s' = role_transitions s" and "user_invitations s' = user_invitations s"
  using assms by (auto simp: insert_user_role_def split: if_splits)

lemma insert_user_roles_Inl:
  assumes "insert_user_roles s uid rs now = Inl e"
    and "list_ex (\<lambda>a. au_id a = uid) (auth_users s)"
    and "list_all (\<lambda>r. list_ex (\<lambda>r'. r_id r' = r_id r) (roles s)) rs"
  shows "e = UniqueViolation ''user_roles_user_id_role_id_key''"
  using assms
proof (induction rs arbitrary: s)
  case Nil
  then show ?case by simp
next
  case (Cons r rs)
  show ?case
  proof (cases "insert_user_role s uid (r_id r) (Some True) now")
    case (Inl e')
    with Cons.prems show ?thesis
      by (auto simp: insert_user_role_def split: if_splits)
  next
    case (Inr s1)
    note fr = insert_user_role_Inr(2,3) [OF Inr]
    from Cons.prems(1) Inr have rest: "insert_user_roles s1 uid rs now = Inl e" by simp
    show ?thesis
    proof (rule Cons.IH [OF rest])
      show "list_ex (\<lambda>a. au_id a = uid) (auth_users s1)" using Cons.prems(2) fr by simp
      show "list_all (\<lambda>r. list_ex (\<lambda>r'. r_id r' = r_id r) (roles s1)) rs"
        using Cons.prems(3) fr by simp
    qed
  qed
qed

lemma insert_user_roles_ok:
  assumes "list_ex (\<lambda>a. au_id a = uid) (auth_users s)"
    and "list_all (\<lambda>r. list_ex (\<lambda>r'. r_id r' = r_id r) (roles s)) rs"
    and "distinct (map r_id rs)"
    and "list_all (\<lambda>r. \<not> list_ex (\<lambda>ur. ur_user_id ur = uid \<and> ur_role_id ur = r_id r) (user_roles s)) rs"
  shows "\<exists>s'. insert_user_roles s uid rs now = Inr s'"
  using assms
proof (induction rs arbitrary: s)
  case Nil
  then show ?case by simp
next
  case (Cons r rs)
  from Cons.prems obtain s1 where one: "insert_user_role s uid (r_id r) (Some True) now = Inr s1"
    by (auto simp: insert_user_role_def)
  from insert_user_role_Inr(1) [OF one] obtain ur where ur: "user_roles s1 = user_roles s @ [ur]"
    "ur_user_id ur = uid" "ur_role_id ur = r_id r" by blast
  note fr = insert_user_role_Inr(2,3) [OF one]
  have "\<exists>s'. insert_user_roles s1 uid rs now = Inr s'"
  proof (rule Cons.IH)
    show "list_ex (\<lambda>a. au_id a = uid) (auth_users s1)" using Cons.prems(1) fr by simp
    show "list_all (\<lambda>r. list_ex (\<lambda>r'. r_id r' = r_id r) (roles s1)) rs" using Cons.prems(2) fr by simp
    show "distinct (map r_id rs)" using Cons.prems(3) by simp
    show "list_all (\<lambda>r. \<not> list_ex (\<lambda>ur. ur_user_id ur = uid \<and> ur_role_id ur = r_id r) (user_roles s1)) rs"
      using Cons.prems(3,4) ur by (auto simp: list_all_iff list_ex_iff)
  qed
  with one show ?case by simp
qed

lemma granted_roles_mem:
  "r \<in> set (granted_roles s names) \<longleftrightarrow> r \<in> set (roles s) \<and> Some (r_name r) \<in> set names"
  by (auto simp: granted_roles_def sql_eq_def split: option.splits)

lemma granted_roles_skip:
  assumes "\<not> list_ex (\<lambda>r. r_name r = n) (roles s)"
  shows "granted_roles s names = granted_roles s (filter (\<lambda>x. x \<noteq> Some n) names)"
proof (induction names)
  case Nil
  then show ?case by simp
next
  case (Cons x names)
  have "x = Some n \<Longrightarrow> filter (\<lambda>r. sql_eq (Some (r_name r)) x) (roles s) = []"
    using assms by (auto simp: sql_eq_def list_ex_iff filter_empty_conv)
  with Cons show ?case by (simp add: granted_roles_def)
qed

lemma find_invitation_user:
  assumes "find_invitation s uid token now = Some iv"
  shows "list_ex (\<lambda>a. au_id a = uid) (auth_users s)"
proof -
  from assms have "sql_eq (Some (ui_email iv)) (user_email s uid)"
    by (auto simp: find_invitation_def find_Some_iff)
  then obtain a where "find (\<lambda>a. au_id a = uid) (auth_users s) = Some a"
    by (auto simp: user_email_def sql_eq_def split: option.splits)
  then show ?thesis by (auto simp: find_Some_iff list_ex_iff)
qed


lemma list_ex_au_id_cong:
  fixes xs ys :: "auth_user list"
  assumes "map au_id xs = map au_id ys"
  shows "list_ex (\<lambda>a. au_id a = uid) xs = list_ex (\<lambda>a. au_id a = uid) ys"
proof -
  have k: "list_ex (\<lambda>a. au_id a = uid) zs \<longleftrightarrow> uid \<in> set (map au_id zs)" for zs :: "auth_user list"
    by (auto simp: list_ex_iff)
  show ?thesis unfolding k assms by (rule refl)
qed

lemma insert_user_role_state:
  assumes "insert_user_role s uid rid act now = Inr s'"
  shows "\<exists>ur. s' = s\<lparr>user_roles := user_roles s @ [ur]\<rparr> \<and> ur_user_id ur = uid
           \<and> ur_role_id ur = rid \<and> is_active ur = act \<and> assigned_by ur = None
           \<and> ur_expires_at ur = None \<and> assigned_at ur = Some now"
  using assms by (auto simp: insert_user_role_def split: if_splits)

lemma insert_user_roles_state:
  assumes "insert_user_roles s uid rs now = Inr s'"
  shows "\<exists>new. s' = s\<lparr>user_roles := user_roles s @ new\<rparr> \<and> map ur_role_id new = map r_id rs
           \<and> list_all (\<lambda>ur. ur_user_id ur = uid \<and> is_active ur = Some True \<and> assigned_by ur = None
                          \<and> ur_expires_at ur = None \<and> assigned_at ur = Some now) new"
  using assms
proof (induction rs arbitrary: s)
  case Nil
  then show ?case by (intro exI [of _ "[]"]) simp
next
  case (Cons r rs)
  from Cons.prems obtain s1 where one: "insert_user_role s uid (r_id r) (Some True) now = Inr s1"
    and rest: "insert_user_roles s1 uid rs now = Inr s'"
    by (auto split: sum.splits)
  from insert_user_role_state [OF one] obtain ur where ur: "s1 = s\<lparr>user_roles := user_roles s @ [ur]\<rparr>"
    "ur_user_id ur = uid" "ur_role_id ur = r_id r" "is_active ur = Some True"
    "assigned_by ur = None" "ur_expires_at ur = None" "assigned_at ur = Some now"
    by blast
  from Cons.IH [OF rest] obtain new where new: "s' = s1\<lparr>user_roles := user_roles s1 @ new\<rparr>"
    "map ur_role_id new = map r_id rs"
    "list_all (\<lambda>ur. ur_user_id ur = uid \<and> is_active ur = Some True \<and> assigned_by ur = None
                          \<and> ur_expires_at ur = None \<and> assigned_at ur = Some now) new"
    by blast
  have "s' = s\<lparr>user_roles := user_roles s @ (ur # new)\<rparr>" using ur(1) new(1) by simp
  moreover have "map ur_role_id (ur # new) = map r_id (r # rs)" using ur(3) new(2) by simp
  moreover have "list_all (\<lambda>ur. ur_user_id ur = uid \<and> is_active ur = Some True \<and> assigned_by ur = None
                          \<and> ur_expires_at ur = None \<and> assigned_at ur = Some now) (ur # new)"
    using ur(2,4,5,6,7) new(3) by simp
  ultimately show ?case by (intro exI [of _ "ur # new"] conjI)
qed

lemma filter_as_concat: "filter P xs = concat (map (\<lambda>x. if P x then [x] else []) xs)"
  by (induction xs) simp_all

lemma granted_roles_eq:
  "granted_roles s names = [r. name \<leftarrow> names, r \<leftarrow> roles s, name = Some (r_name r)]"
proof -
  have "sql_eq (Some (r_name r)) name \<longleftrightarrow> name = Some (r_name r)" for r :: role and name
    by (cases name) (auto simp: sql_eq_def)
  then show ?thesis by (simp add: granted_roles_def filter_as_concat)
qed

lemma map_of_replace:
  "map_of (map (\<lambda>p. if fst p = k then (k, v) else p) m) x
     = (if x = k then (if list_ex (\<lambda>p. fst p = k) m then Some v else None) else map_of m x)"
  by (induction m) auto

lemma map_of_jsonb_set: "map_of (jsonb_set m k v) = (map_of m)(k \<mapsto> v)"
proof (cases "list_ex (\<lambda>p. fst p = k) m")
  case True
  then show ?thesis by (auto simp: jsonb_set_def map_of_replace)
next
  case False
  then have "map_of m k = None" by (auto simp: list_ex_iff map_of_eq_None_iff)
  with False show ?thesis
    by (auto simp: jsonb_set_def map_add_def fun_eq_iff split: option.splits)
qed

text \<open>
  C10. When \<open>verify_user_email\<close> finds its invitation and the invitation lists a name
  \<open>n\<close> that no role has, the name adds nothing to the grant: the roles joined to the list
  are those joined to the list without \<open>n\<close>. Every successful call returns \<open>true\<close>. Its
  database is the one before the call with the invitation's status set to \<open>accepted\<close>,
  \<open>email_verified\<close> set to \<open>true\<close> in the metadata of the user, and one new active
  assignment of the user for each pair of a listed name and a role of that name: the new
  role ids are exactly the ids of the existing roles whose name is listed. Nothing else is
  written, in particular no \<open>role_transitions\<close> row and nothing that names \<open>n\<close>. The only
  error the call can end with is the violation of \<open>UNIQUE(user_id, role_id)\<close>, among
  roles that do exist; when the joined roles are distinct and the user holds none of
  them, the call succeeds.
\<close>

theorem verify_user_email_skips_unknown_roles:
  assumes "find_invitation s uid token now = Some iv"
    and "Some n \<in> set (ui_roles iv)"
    and "\<not> list_ex (\<lambda>r. r_name r = n) (roles s)"
  shows "[r. name \<leftarrow> ui_roles iv, r \<leftarrow> roles s, name = Some (r_name r)]
       = [r. name \<leftarrow> filter (\<lambda>x. x \<noteq> Some n) (ui_roles iv), r \<leftarrow> roles s, name = Some (r_name r)]
    \<and> (\<forall>s' b. verify_user_email s uid token now = Inr (s', b) \<longrightarrow>
          b \<and> (\<exists>new. s' = s\<lparr>user_invitations := map (\<lambda>i. if ui_id i = ui_id iv then i\<lparr>ui_status := ''accepted''\<rparr> else i) (user_invitations s),
                     auth_users := map (\<lambda>a. if au_id a = uid
                        then a\<lparr>raw_user_meta_data :=
                               Some (jsonb_set (case raw_user_meta_data a of None \<Rightarrow> [] | Some m \<Rightarrow> m)
                                       ''email_verified'' (JBool True))\<rparr>
                        else a) (auth_users s),
                     user_roles := user_roles s @ new\<rparr>
                  \<and> map ur_role_id new = map r_id [r. name \<leftarrow> ui_roles iv, r \<leftarrow> roles s, name = Some (r_name r)]
                  \<and> set (map ur_role_id new)
                      = {r_id r | r. r \<in> set (roles s) \<and> Some (r_name r) \<in> set (ui_roles iv)}
                  \<and> list_all (\<lambda>ur. ur_user_id ur = uid \<and> is_active ur = Some True \<and> assigned_by ur = None
                          \<and> ur_expires_at ur = None \<and> assigned_at ur = Some now) new)
            \<and> roles s' = roles s \<and> role_transitions s' = role_transitions s)
    \<and> (\<forall>m. map_of (jsonb_set m ''email_verified'' (JBool True)) = (map_of m)(''email_verified'' \<mapsto> JBool True))
    \<and> (\<forall>e. verify_user_email s uid token now = Inl e \<longrightarrow>
          e = UniqueViolation ''user_roles_user_id_role_id_key'')
    \<and> (distinct (map r_id [r. name \<leftarrow> ui_roles iv, r \<leftarrow> roles s, name = Some (r_name r)])
        \<and> list_all (\<lambda>r. \<not> list_ex (\<lambda>ur. ur_user_id ur = uid \<and> ur_role_id ur = r_id r) (user_roles s))
             [r. name \<leftarrow> ui_roles iv, r \<leftarrow> roles s, name = Some (r_name r)]
        \<longrightarrow> (\<exists>s'. verify_user_email s uid token now = Inr (s', True)))"
proof -
  define s1 where "s1 = s\<lparr>user_invitations :=
       map (\<lambda>i. if ui_id i = ui_id iv then i\<lparr>ui_status := ''accepted''\<rparr> else i) (user_invitations s)\<rparr>"
  define s2 where "s2 = s1\<lparr>auth_users :=
       map (\<lambda>a. if au_id a = uid
             then a\<lparr>raw_user_meta_data :=
                    Some (jsonb_set (case raw_user_meta_data a of None \<Rightarrow> [] | Some m \<Rightarrow> m)
                            ''email_verified'' (JBool True))\<rparr>
             else a) (auth_users s1)\<rparr>"
  define g where "g = [r. name \<leftarrow> ui_roles iv, r \<leftarrow> roles s, name = Some (r_name r)]"
  have gr: "granted_roles s (ui_roles iv) = g" by (simp add: g_def granted_roles_eq)
  have v: "verify_user_email s uid token now =
      (case insert_user_roles s2 uid g now of
         Inl e \<Rightarrow> Inl e | Inr s3 \<Rightarrow> Inr (s3, True))"
    using assms(1) gr by (simp add: verify_user_email_def s1_def s2_def Let_def granted_roles_def)
  have fr: "roles s2 = roles s" "user_roles s2 = user_roles s"
    "role_transitions s2 = role_transitions s"
    by (simp_all add: s1_def s2_def)
  have "map au_id (auth_users s2) = map au_id (auth_users s)"
    by (simp add: s1_def s2_def comp_def if_distrib cong: if_cong)
  then have "list_ex (\<lambda>a. au_id a = uid) (auth_users s2) = list_ex (\<lambda>a. au_id a = uid) (auth_users s)"
    by (rule list_ex_au_id_cong)
  then have ex: "list_ex (\<lambda>a. au_id a = uid) (auth_users s2)"
    using find_invitation_user [OF assms(1)] by simp
  have gm: "r \<in> set g \<longleftrightarrow> r \<in> set (roles s) \<and> Some (r_name r) \<in> set (ui_roles iv)" for r
    using granted_roles_mem [of r s "ui_roles iv"] gr by simp
  have rl: "list_all (\<lambda>r. list_ex (\<lambda>r'. r_id r' = r_id r) (roles s2)) g"
    by (auto simp: list_all_iff list_ex_iff gm fr)
  have a: "g = [r. name \<leftarrow> filter (\<lambda>x. x \<noteq> Some n) (ui_roles iv), r \<leftarrow> roles s, name = Some (r_name r)]"
    using granted_roles_skip [OF assms(3), of "ui_roles iv"] gr
    by (simp add: granted_roles_eq)
  have b: "\<forall>s' b. verify_user_email s uid token now = Inr (s', b) \<longrightarrow>
          b \<and> (\<exists>new. s' = s\<lparr>user_invitations := map (\<lambda>i. if ui_id i = ui_id iv then i\<lparr>ui_status := ''accepted''\<rparr> else i) (user_invitations s),
                     auth_users := map (\<lambda>a. if au_id a = uid
                        then a\<lparr>raw_user_meta_data :=
                               Some (jsonb_set (case raw_user_meta_data a of None \<Rightarrow> [] | Some m \<Rightarrow> m)
                                       ''email_verified'' (JBool True))\<rparr>
                        else a) (auth_users s),
                     user_roles := user_roles s @ new\<rparr>
                  \<and> map ur_role_id new = map r_id g
                  \<and> set (map ur_role_id new)
                      = {r_id r | r. r \<in> set (roles s) \<and> Some (r_name r) \<in> set (ui_roles iv)}
                  \<and> list_all (\<lambda>ur. ur_user_id ur = uid \<and> is_active ur = Some True \<and> assigned_by ur = None
                          \<and> ur_expires_at ur = None \<and> assigned_at ur = Some now) new)
            \<and> roles s' = roles s \<and> role_transitions s' = role_transitions s"
  proof (intro allI impI)
    fix s' b
    assume "verify_user_email s uid token now = Inr (s', b)"
    with v have i: "insert_user_roles s2 uid g now = Inr s'" and b: "b"
      by (auto split: sum.splits)
    from insert_user_roles_state [OF i] obtain new where
      st: "s' = s2\<lparr>user_roles := user_roles s2 @ new\<rparr>"
      and ids: "map ur_role_id new = map r_id g"
      and rows: "list_all (\<lambda>ur. ur_user_id ur = uid \<and> is_active ur = Some True \<and> assigned_by ur = None
                          \<and> ur_expires_at ur = None \<and> assigned_at ur = Some now) new"
      by blast
    have st': "s' = s\<lparr>user_invitations := map (\<lambda>i. if ui_id i = ui_id iv then i\<lparr>ui_status := ''accepted''\<rparr> else i) (user_invitations s),
                     auth_users := map (\<lambda>a. if au_id a = uid
                        then a\<lparr>raw_user_meta_data :=
                               Some (jsonb_set (case raw_user_meta_data a of None \<Rightarrow> [] | Some m \<Rightarrow> m)
                                       ''email_verified'' (JBool True))\<rparr>
                        else a) (auth_users s),
                     user_roles := user_roles s @ new\<rparr>"
      using st by (simp add: s1_def s2_def)
    have "set (map ur_role_id new) = r_id ` set g" using ids by (metis set_map)
    also have "\<dots> = {r_id r | r. r \<in> set (roles s) \<and> Some (r_name r) \<in> set (ui_roles iv)}"
      using gm by auto
    finally have ch: "set (map ur_role_id new)
        = {r_id r | r. r \<in> set (roles s) \<and> Some (r_name r) \<in> set (ui_roles iv)}" .
    have ex1: "\<exists>new. s' = s\<lparr>user_invitations := map (\<lambda>i. if ui_id i = ui_id iv then i\<lparr>ui_status := ''accepted''\<rparr> else i) (user_invitations s),
                     auth_users := map (\<lambda>a. if au_id a = uid
                        then a\<lparr>raw_user_meta_data :=
                               Some (jsonb_set (case raw_user_meta_data a of None \<Rightarrow> [] | Some m \<Rightarrow> m)
                                       ''email_verified'' (JBool True))\<rparr>
                        else a) (auth_users s),
                     user_roles := user_roles s @ new\<rparr>
                  \<and> map ur_role_id new = map r_id g
                  \<and> set (map ur_role_id new)
                      = {r_id r | r. r \<in> set (roles s) \<and> Some (r_name r) \<in> set (ui_roles iv)}
                  \<and> list_all (\<lambda>ur. ur_user_id ur = uid \<and> is_active ur = Some True \<and> assigned_by ur = None
                          \<and> ur_expires_at ur = None \<and> assigned_at ur = Some now) new"
      by (rule exI [of _ new]) (intro conjI st' ids ch rows)
    have f1: "roles s' = roles s" "role_transitions s' = role_transitions s"
      using st fr by simp_all
    show "b \<and> (\<exists>new. s' = s\<lparr>user_invitations := map (\<lambda>i. if ui_id i = ui_id iv then i\<lparr>ui_status := ''accepted''\<rparr> else i) (user_invitations s),
                     auth_users := map (\<lambda>a. if au_id a = uid
                        then a\<lparr>raw_user_meta_data :=
                               Some (jsonb_set (case raw_user_meta_data a of None \<Rightarrow> [] | Some m \<Rightarrow> m)
                                       ''email_verified'' (JBool True))\<rparr>
                        else a) (auth_users s),
                     user_roles := user_roles s @ new\<rparr>
                  \<and> map ur_role_id new = map r_id g
                  \<and> set (map ur_role_id new)
                      = {r_id r | r. r \<in> set (roles s) \<and> Some (r_name r) \<in> set (ui_roles iv)}
                  \<and> list_all (\<lambda>ur. ur_user_id ur = uid \<and> is_active ur = Some True \<and> assigned_by ur = None
                          \<and> ur_expires_at ur = None \<and> assigned_at ur = Some now) new)
            \<and> roles s' = roles s \<and> role_transitions s' = role_transitions s"
      by (intro conjI b ex1 f1)
  qed
  have j: "\<forall>m. map_of (jsonb_set m ''email_verified'' (JBool True)) = (map_of m)(''email_verified'' \<mapsto> JBool True)"
    by (simp add: map_of_jsonb_set)
  have c: "\<forall>e. verify_user_email s uid token now = Inl e \<longrightarrow>
          e = UniqueViolation ''user_roles_user_id_role_id_key''"
  proof (intro allI impI)
    fix e
    assume "verify_user_email s uid token now = Inl e"
    with v have "insert_user_roles s2 uid g now = Inl e"
      by (auto split: sum.splits)
    from insert_user_roles_Inl [OF this ex rl]
    show "e = UniqueViolation ''user_roles_user_id_role_id_key''" .
  qed
  have d: "distinct (map r_id g)
        \<and> list_all (\<lambda>r. \<not> list_ex (\<lambda>ur. ur_user_id ur = uid \<and> ur_role_id ur = r_id r) (user_roles s))
             g
        \<longrightarrow> (\<exists>s'. verify_user_email s uid token now = Inr (s', True))"
  proof
    assume h: "distinct (map r_id g)
        \<and> list_all (\<lambda>r. \<not> list_ex (\<lambda>ur. ur_user_id ur = uid \<and> ur_role_id ur = r_id r) (user_roles s)) g"
    then have "list_all (\<lambda>r. \<not> list_ex (\<lambda>ur. ur_user_id ur = uid \<and> ur_role_id ur = r_id r) (user_roles s2)) g"
      by (simp add: fr)
    from insert_user_roles_ok [OF ex rl conjunct1 [OF h] this, of now]
    obtain s' where "insert_user_roles s2 uid g now = Inr s'" by blast
    with v show "\<exists>s'. verify_user_email s uid token now = Inr (s', True)" by simp
  qed
  from a b j c d show ?thesis unfolding g_def by (intro conjI)
qed

theorem verify_user_email_skips_unknown_roles_witness:
  "find_invitation invited_db 8 ''tok'' 10 = Some bob_invitation
   \<and> Some ''editor'' \<in> set (ui_roles bob_invitation)
   \<and> \<not> list_ex (\<lambda>r. r_name r = ''editor'') (roles invited_db)
   \<and> [r. name \<leftarrow> ui_roles bob_invitation, r \<leftarrow> roles invited_db, name = Some (r_name r)]
       = [user_role_row]
   \<and> (\<exists>s'. verify_user_email invited_db 8 ''tok'' 10 = Inr (s', True)
         \<and> map ur_role_id (user_roles s') = [1, 3]
         \<and> map ur_user_id (user_roles s') = [7, 8]
         \<and> role_transitions s' = []
         \<and> map ui_status (user_invitations s') = [''accepted'']
         \<and> map raw_user_meta_data (auth_users s') = [None, Some [(''email_verified'', JBool True)]])"
proof -
  have h1: "find_invitation invited_db 8 ''tok'' 10 = Some bob_invitation"
    by (simp add: find_invitation_def user_email_def sql_eq_def inv_defs)
  have h2: "Some ''editor'' \<in> set (ui_roles bob_invitation)" by (simp add: inv_defs)
  have h3: "\<not> list_ex (\<lambda>r. r_name r = ''editor'') (roles invited_db)" by (simp add: inv_defs)
  have g: "[r. name \<leftarrow> ui_roles bob_invitation, r \<leftarrow> roles invited_db, name = Some (r_name r)]
       = [user_role_row]"
    by (simp add: inv_defs)
  note t = verify_user_email_skips_unknown_roles [OF h1 h2 h3]
  have pre: "distinct (map r_id [r. name \<leftarrow> ui_roles bob_invitation, r \<leftarrow> roles invited_db,
                                   name = Some (r_name r)])
        \<and> list_all (\<lambda>r. \<not> list_ex (\<lambda>ur. ur_user_id ur = 8 \<and> ur_role_id ur = r_id r) (user_roles invited_db))
             [r. name \<leftarrow> ui_roles bob_invitation, r \<leftarrow> roles invited_db, name = Some (r_name r)]"
    unfolding g by (simp add: inv_defs)
  have "\<exists>s'. verify_user_email invited_db 8 ''tok'' 10 = Inr (s', True)"
    by (rule mp [OF conjunct2 [OF conjunct2 [OF conjunct2 [OF conjunct2 [OF t]]]] pre])
  then obtain s' where run: "verify_user_email invited_db 8 ''tok'' 10 = Inr (s', True)" ..
  note eff = mp [OF spec [OF spec [OF conjunct1 [OF conjunct2 [OF t]]]] run]
  from conjunct1 [OF conjunct2 [OF eff]] obtain new where
    st: "s' = invited_db\<lparr>user_invitations :=
             map (\<lambda>i. if ui_id i = ui_id bob_invitation then i\<lparr>ui_status := ''accepted''\<rparr> else i)
               (user_invitations invited_db),
           auth_users :=
             map (\<lambda>a. if au_id a = 8
                   then a\<lparr>raw_user_meta_data :=
                          Some (jsonb_set (case raw_user_meta_data a of None \<Rightarrow> [] | Some m \<Rightarrow> m)
                                  ''email_verified'' (JBool True))\<rparr>
                   else a) (auth_users invited_db),
           user_roles := user_roles invited_db @ new\<rparr>"
    and ids: "map ur_role_id new
        = map r_id [r. name \<leftarrow> ui_roles bob_invitation, r \<leftarrow> roles invited_db, name = Some (r_name r)]"
    and rows: "list_all (\<lambda>ur. ur_user_id ur = 8 \<and> is_active ur = Some True \<and> assigned_by ur = None
                          \<and> ur_expires_at ur = None \<and> assigned_at ur = Some 10) new"
    by blast
  from ids g have ids': "map ur_role_id new = [3]" by (simp add: inv_defs)
  then obtain ur where new: "new = [ur]" by auto
  with rows have u: "ur_user_id ur = 8" by simp
  have m1: "map ur_role_id (user_roles s') = [1, 3]"
    using ids' by (simp add: st inv_defs)
  have m2: "map ur_user_id (user_roles s') = [7, 8]"
    using new u by (simp add: st inv_defs)
  have m3: "role_transitions s' = []" by (simp add: st inv_defs)
  have m4: "map ui_status (user_invitations s') = [''accepted'']" by (simp add: st inv_defs)
  have m5: "map raw_user_meta_data (auth_users s') = [None, Some [(''email_verified'', JBool True)]]"
    by (simp add: st inv_defs jsonb_set_def)
  have e: "\<exists>s'. verify_user_email invited_db 8 ''tok'' 10 = Inr (s', True)
         \<and> map ur_role_id (user_roles s') = [1, 3]
         \<and> map ur_user_id (user_roles s') = [7, 8]
         \<and> role_transitions s' = []
         \<and> map ui_status (user_invitations s') = [''accepted'']
         \<and> map raw_user_meta_data (auth_users s') = [None, Some [(''email_verified'', JBool True)]]"
    by (rule exI [of _ s']) (intro conjI run m1 m2 m3 m4 m5)
  show ?thesis by (intro conjI h1 h2 h3 g e)
qed

section \<open>Properties of the directory view\<close>

text \<open>
  C9. The claim: \<open>has_pending_invitation\<close> of a rebuilt row is true exactly when a
  non-expired pending invitation matches the identity's email. The view's query does not
  read \<open>expires_at\<close>: Bob's only invitation expired at time 50, and every rebuild, also one
  after that time, gives his row \<open>has_pending_invitation = true\<close>, while
  \<open>verify_user_email\<close>, which asks \<open>expires_at > now()\<close>, no longer finds the invitation
  at time 60.
\<close>

theorem pending_flag_ignores_expiry:
  "map has_pending_invitation (auth_users_view_query invited_db) = [False, True]
   \<and> map de_email (auth_users_view_query invited_db) = [Some ''alice@x.com'', Some ''bob@x.com'']
   \<and> map ui_expires_at (user_invitations invited_db) = [50]
   \<and> has_pending_invitation (auth_users_view_query (refresh_auth_users_view invited_db) ! 1) = True
   \<and> find_invitation invited_db 8 ''tok'' 60 = None
   \<and> verify_user_email invited_db 8 ''tok'' 60 = Inr (invited_db, False)"
  by code_simp

text \<open>
  The repaired definition of the view gives the same rows their same flags: it differs
  in the join with the roles only.
\<close>

lemma repaired_view_pending_flag:
  "map has_pending_invitation (repaired_auth_users_view_query invited_db) = [False, True]
   \<and> map de_email (repaired_auth_users_view_query invited_db)
       = [Some ''alice@x.com'', Some ''bob@x.com'']"
  by code_simp

section \<open>Properties of the role assignment\<close>

text \<open>
  C6, as stated, fails on the block that assigns the admin role: Sam's active assignment
  to the role \<open>user\<close> (row 21) is deleted, not deactivated, and the transition record has
  \<open>old_role_id = NULL\<close> although a prior role existed.
\<close>

theorem assign_admin_role_deletes:
  "assign_admin_role sam_db 10 = Inr sam_admin_db
   \<and> map ur_id (user_roles sam_db) = [21]
   \<and> map is_active (user_roles sam_db) = [Some True]
   \<and> map ur_role_id (user_roles sam_db) = [3]
   \<and> map ur_id (user_roles sam_admin_db) = [1]
   \<and> map ur_role_id (user_roles sam_admin_db) = [1]
   \<and> filter (\<lambda>ur. ur_id ur = 21) (user_roles sam_admin_db) = []
   \<and> map old_role_id (role_transitions sam_admin_db) = [None]"
  by code_simp

text \<open>
  C6, amended. The block assigns the admin role to the identity with the email
  \<open>sam@reachloud.com\<close>. When it succeeds it has deleted every assignment row of that user,
  inserted one active assignment to \<open>admin\<close>, and appended exactly one transition record
  with \<open>old_role_id = NULL\<close>, the admin role as the new role, the user itself as the actor
  and the reason \<open>Initial admin role assignment\<close>. It succeeds whenever the user and the
  role exist, and otherwise raises and changes nothing: the assignment change and the
  audit record are committed together or not at all.
\<close>

theorem assign_admin_role_effect:
  "(assign_admin_role s now = Inr s' \<longrightarrow>
      (\<exists>a r. find (\<lambda>a. sql_eq (au_email a) (Some ''sam@reachloud.com'')) (auth_users s) = Some a
          \<and> find (\<lambda>r. r_name r = ''admin'') (roles s) = Some r
          \<and> user_roles s' = filter (\<lambda>ur. ur_user_id ur \<noteq> au_id a) (user_roles s)
               @ [\<lparr>ur_id = fresh_id (map ur_id (filter (\<lambda>ur. ur_user_id ur \<noteq> au_id a) (user_roles s))),
                   ur_user_id = au_id a, ur_role_id = r_id r, assigned_by = None,
                   assigned_at = Some now, ur_expires_at = None, is_active = Some True\<rparr>]
          \<and> role_transitions s' = role_transitions s
               @ [\<lparr>rt_id = fresh_id (map rt_id (role_transitions s)), rt_user_id = au_id a,
                   old_role_id = None, new_role_id = r_id r, changed_by = au_id a,
                   reason = Some ''Initial admin role assignment'', rt_created_at = Some now\<rparr>]))
   \<and> (find (\<lambda>a. sql_eq (au_email a) (Some ''sam@reachloud.com'')) (auth_users s) \<noteq> None
        \<and> find (\<lambda>r. r_name r = ''admin'') (roles s) \<noteq> None
      \<longrightarrow> (\<exists>s'. assign_admin_role s now = Inr s'))
   \<and> (find (\<lambda>a. sql_eq (au_email a) (Some ''sam@reachloud.com'')) (auth_users s) = None
      \<longrightarrow> assign_admin_role s now = Inl (RaiseException ''User not found''))
   \<and> (find (\<lambda>a. sql_eq (au_email a) (Some ''sam@reachloud.com'')) (auth_users s) \<noteq> None
        \<and> find (\<lambda>r. r_name r = ''admin'') (roles s) = None
      \<longrightarrow> assign_admin_role s now = Inl (RaiseException ''Admin role not found''))"
proof -
  have ok: "assign_admin_role s now = Inr (s\<lparr>
       user_roles := filter (\<lambda>ur. ur_user_id ur \<noteq> au_id a) (user_roles s)
               @ [\<lparr>ur_id = fresh_id (map ur_id (filter (\<lambda>ur. ur_user_id ur \<noteq> au_id a) (user_roles s))),
                   ur_user_id = au_id a, ur_role_id = r_id r, assigned_by = None,
                   assigned_at = Some now, ur_expires_at = None, is_active = Some True\<rparr>],
       role_transitions := role_transitions s
               @ [\<lparr>rt_id = fresh_id (map rt_id (role_transitions s)), rt_user_id = au_id a,
                   old_role_id = None, new_role_id = r_id r, changed_by = au_id a,
                   reason = Some ''Initial admin role assignment'', rt_created_at = Some now\<rparr>]\<rparr>)"
    if a: "find (\<lambda>a. sql_eq (au_email a) (Some ''sam@reachloud.com'')) (auth_users s) = Some a"
      and r: "find (\<lambda>r. r_name r = ''admin'') (roles s) = Some r" for a r
  proof -
    have ea: "list_ex (\<lambda>x. au_id x = au_id a) (auth_users s)"
      using a by (auto simp: find_Some_iff list_ex_iff)
    have er: "list_ex (\<lambda>x. r_id x = r_id r) (roles s)"
      using r by (auto simp: find_Some_iff list_ex_iff)
    have nu: "\<not> list_ex (\<lambda>ur. ur_user_id ur = au_id a \<and> ur_role_id ur = r_id r)
                 (filter (\<lambda>ur. ur_user_id ur \<noteq> au_id a) (user_roles s))"
      by (auto simp: list_ex_iff)
    show ?thesis
      using a r ea er nu
      by (simp add: assign_admin_role_def Let_def insert_user_role_def insert_role_transition_def)
  qed
  show ?thesis
  proof (intro conjI impI)
    assume run: "assign_admin_role s now = Inr s'"
    then obtain a where a: "find (\<lambda>a. sql_eq (au_email a) (Some ''sam@reachloud.com'')) (auth_users s) = Some a"
      by (cases "find (\<lambda>a. sql_eq (au_email a) (Some ''sam@reachloud.com'')) (auth_users s)")
        (auto simp: assign_admin_role_def Let_def)
    from run a obtain r where r: "find (\<lambda>r. r_name r = ''admin'') (roles s) = Some r"
      by (cases "find (\<lambda>r. r_name r = ''admin'') (roles s)")
        (auto simp: assign_admin_role_def Let_def)
    from ok [OF a r] run have "s' = s\<lparr>
       user_roles := filter (\<lambda>ur. ur_user_id ur \<noteq> au_id a) (user_roles s)
               @ [\<lparr>ur_id = fresh_id (map ur_id (filter (\<lambda>ur. ur_user_id ur \<noteq> au_id a) (user_roles s))),
                   ur_user_id = au_id a, ur_role_id = r_id r, assigned_by = None,
                   assigned_at = Some now, ur_expires_at = None, is_active = Some True\<rparr>],
       role_transitions := role_transitions s
               @ [\<lparr>rt_id = fresh_id (map rt_id (role_transitions s)), rt_user_id = au_id a,
                   old_role_id = None, new_role_id = r_id r, changed_by = au_id a,
                   reason = Some ''Initial admin role assignment'', rt_created_at = Some now\<rparr>]\<rparr>"
      by simp
    with a r show "\<exists>a r. find (\<lambda>a. sql_eq (au_email a) (Some ''sam@reachloud.com'')) (auth_users s) = Some a
          \<and> find (\<lambda>r. r_name r = ''admin'') (roles s) = Some r
          \<and> user_roles s' = filter (\<lambda>ur. ur_user_id ur \<noteq> au_id a) (user_roles s)
               @ [\<lparr>ur_id = fresh_id (map ur_id (filter (\<lambda>ur. ur_user_id ur \<noteq> au_id a) (user_roles s))),
                   ur_user_id = au_id a, ur_role_id = r_id r, assigned_by = None,
                   assigned_at = Some now, ur_expires_at = None, is_active = Some True\<rparr>]
          \<and> role_transitions s' = role_transitions s
               @ [\<lparr>rt_id = fresh_id (map rt_id (role_transitions s)), rt_user_id = au_id a,
                   old_role_id = None, new_role_id = r_id r, changed_by = au_id a,
                   reason = Some ''Initial admin role assignment'', rt_created_at = Some now\<rparr>]"
      by (intro exI [of _ a] exI [of _ r]) simp
  next
    assume "find (\<lambda>a. sql_eq (au_email a) (Some ''sam@reachloud.com'')) (auth_users s) \<noteq> None
        \<and> find (\<lambda>r. r_name r = ''admin'') (roles s) \<noteq> None"
    then obtain a r where "find (\<lambda>a. sql_eq (au_email a) (Some ''sam@reachloud.com'')) (auth_users s) = Some a"
      "find (\<lambda>r. r_name r = ''admin'') (roles s) = Some r" by auto
    from ok [OF this] show "\<exists>s'. assign_admin_role s now = Inr s'" by blast
  next
    assume "find (\<lambda>a. sql_eq (au_email a) (Some ''sam@reachloud.com'')) (auth_users s) = None"
    then show "assign_admin_role s now = Inl (RaiseException ''User not found'')"
      by (simp add: assign_admin_role_def)
  next
    assume "find (\<lambda>a. sql_eq (au_email a) (Some ''sam@reachloud.com'')) (auth_users s) \<noteq> None
        \<and> find (\<lambda>r. r_name r = ''admin'') (roles s) = None"
    then show "assign_admin_role s now = Inl (RaiseException ''Admin role not found'')"
      by (auto simp: assign_admin_role_def)
  qed
qed

theorem assign_admin_role_effect_witness:
  "find (\<lambda>a. sql_eq (au_email a) (Some ''sam@reachloud.com'')) (auth_users sam_db) = Some sam
   \<and> find (\<lambda>r. r_name r = ''admin'') (roles sam_db) = Some admin_role
   \<and> (\<exists>s'. assign_admin_role sam_db 10 = Inr s'
        \<and> map ur_role_id (user_roles s') = [1]
        \<and> map new_role_id (role_transitions s') = [1])
   \<and> find (\<lambda>a. sql_eq (au_email a) (Some ''sam@reachloud.com'')) (auth_users admin_db) = None
   \<and> assign_admin_role admin_db 10 = Inl (RaiseException ''User not found'')
   \<and> find (\<lambda>r. r_name r = ''admin'') (roles (sam_db\<lparr>roles := [user_role_row]\<rparr>)) = None
   \<and> assign_admin_role (sam_db\<lparr>roles := [user_role_row]\<rparr>) 10
       = Inl (RaiseException ''Admin role not found'')"
proof -
  have a: "find (\<lambda>a. sql_eq (au_email a) (Some ''sam@reachloud.com'')) (auth_users sam_db) = Some sam"
    by (simp add: sql_eq_def inv_defs)
  have r: "find (\<lambda>r. r_name r = ''admin'') (roles sam_db) = Some admin_role"
    by (simp add: inv_defs)
  note t = assign_admin_role_effect [where s = sam_db and now = 10]
  from t a r obtain s' where run: "assign_admin_role sam_db 10 = Inr s'" by auto
  from assign_admin_role_effect [where s = sam_db and now = 10 and s' = s'] run a r
  have "user_roles s' = filter (\<lambda>ur. ur_user_id ur \<noteq> au_id sam) (user_roles sam_db)
               @ [\<lparr>ur_id = fresh_id (map ur_id (filter (\<lambda>ur. ur_user_id ur \<noteq> au_id sam) (user_roles sam_db))),
                   ur_user_id = au_id sam, ur_role_id = r_id admin_role, assigned_by = None,
                   assigned_at = Some 10, ur_expires_at = None, is_active = Some True\<rparr>]"
    and "role_transitions s' = role_transitions sam_db
               @ [\<lparr>rt_id = fresh_id (map rt_id (role_transitions sam_db)), rt_user_id = au_id sam,
                   old_role_id = None, new_role_id = r_id admin_role, changed_by = au_id sam,
                   reason = Some ''Initial admin role assignment'', rt_created_at = Some 10\<rparr>]"
    by simp_all
  then have m: "map ur_role_id (user_roles s') = [1]" "map new_role_id (role_transitions s') = [1]"
    by (simp_all add: inv_defs)
  have e: "\<exists>s'. assign_admin_role sam_db 10 = Inr s'
        \<and> map ur_role_id (user_roles s') = [1]
        \<and> map new_role_id (role_transitions s') = [1]"
    by (rule exI [of _ s']) (simp add: run m)
  have n: "find (\<lambda>a. sql_eq (au_email a) (Some ''sam@reachloud.com'')) (auth_users admin_db) = None"
    by (simp add: sql_eq_def inv_defs)
  with assign_admin_role_effect [where s = admin_db and now = 10]
  have x: "assign_admin_role admin_db 10 = Inl (RaiseException ''User not found'')" by blast
  have a': "find (\<lambda>a. sql_eq (au_email a) (Some ''sam@reachloud.com''))
              (auth_users (sam_db\<lparr>roles := [user_role_row]\<rparr>)) \<noteq> None"
    by (simp add: sql_eq_def inv_defs)
  have n': "find (\<lambda>r. r_name r = ''admin'') (roles (sam_db\<lparr>roles := [user_role_row]\<rparr>)) = None"
    by (simp add: inv_defs)
  from assign_admin_role_effect [where s = "sam_db\<lparr>roles := [user_role_row]\<rparr>" and now = 10] a' n'
  have y: "assign_admin_role (sam_db\<lparr>roles := [user_role_row]\<rparr>) 10
       = Inl (RaiseException ''Admin role not found'')"
    by blast
  show ?thesis by (intro conjI a r e n x n' y)
qed

end
